theory Spec2Isabelle
  imports Complex_Main
begin

section \<open>JavaScript primitives used by the handlers\<close>

text \<open>
  Strings are lists of code units. A HOL \<open>char\<close> is one 8-bit unit, read here as the
  Latin-1 code unit of the same number (U+0000 to U+00FF); the handlers never look at a
  string other than unit by unit, through the library calls modelled below.
\<close>

definition is_word_char :: "char \<Rightarrow> bool" where
  \<comment> \<open>the regular expression class \<open>\w\<close>, that is \<open>[A-Za-z0-9_]\<close>\<close>
  "is_word_char c =
     (let n = (of_char c :: nat)
      in (48 \<le> n \<and> n \<le> 57) \<or> (65 \<le> n \<and> n \<le> 90) \<or> n = 95 \<or> (97 \<le> n \<and> n \<le> 122))"

definition is_space_char :: "char \<Rightarrow> bool" where
  \<comment> \<open>the class \<open>\s\<close>, also the set that \<open>trim\<close> and \<open>parseInt\<close> skip: TAB, LF, VT, FF, CR,
      SPACE and NBSP, the white space of the first 256 code units\<close>
  "is_space_char c =
     (let n = (of_char c :: nat)
      in (9 \<le> n \<and> n \<le> 13) \<or> n = 32 \<or> n = 160)"

definition is_digit_char :: "char \<Rightarrow> bool" where
  "is_digit_char c = (let n = (of_char c :: nat) in 48 \<le> n \<and> n \<le> 57)"

definition lower_char :: "char \<Rightarrow> char" where
  \<comment> \<open>\<open>String.prototype.toLowerCase\<close> on one unit: A to Z, and the Latin-1 capitals
      U+00C0 to U+00DE without the multiplication sign U+00D7\<close>
  "lower_char c =
     (let n = (of_char c :: nat)
      in if (65 \<le> n \<and> n \<le> 90) \<or> (192 \<le> n \<and> n \<le> 222 \<and> n \<noteq> 215)
         then char_of (n + 32) else c)"

definition toLowerCase :: "string \<Rightarrow> string" where
  "toLowerCase s = map lower_char s"

definition trim :: "string \<Rightarrow> string" where
  "trim s = rev (dropWhile is_space_char (rev (dropWhile is_space_char s)))"

fun starts_with_space :: "string \<Rightarrow> bool" where
  "starts_with_space [] = False"
| "starts_with_space (c # cs) = is_space_char c"

text \<open>
  \<open>s.split(/\s+/)\<close>: the pieces of \<open>s\<close> between the maximal runs of white space. A run at
  the start or at the end leaves an empty piece there, and the empty string splits into one
  empty piece.
\<close>

fun split_ws :: "string \<Rightarrow> string list" where
  "split_ws [] = [[]]"
| "split_ws (c # cs) =
     (if is_space_char c
      then (if starts_with_space cs then split_ws cs else [] # split_ws cs)
      else (case split_ws cs of
              [] \<Rightarrow> [[c]]
            | p # ps \<Rightarrow> (c # p) # ps))"

fun starts_with :: "string \<Rightarrow> string \<Rightarrow> bool" where
  \<comment> \<open>\<open>starts_with s t\<close>: \<open>t\<close> is a prefix of \<open>s\<close>\<close>
  "starts_with s [] = True"
| "starts_with [] (d # t) = False"
| "starts_with (c # s) (d # t) = (c = d \<and> starts_with s t)"

fun js_includes :: "string \<Rightarrow> string \<Rightarrow> bool" where
  \<comment> \<open>\<open>s.includes(t)\<close>\<close>
  "js_includes [] t = (t = [])"
| "js_includes (c # s) t = (starts_with (c # s) t \<or> js_includes s t)"

fun join :: "string \<Rightarrow> string list \<Rightarrow> string" where
  \<comment> \<open>\<open>xs.join(sep)\<close>\<close>
  "join sep [] = []"
| "join sep [x] = x"
| "join sep (x # y # ys) = x @ sep @ join sep (y # ys)"

subsection \<open>Numbers\<close>

text \<open>
  A JavaScript number is a double. The model keeps a finite number as the rational it is,
  and \<open>NaN\<close>, which \<open>parseInt\<close> returns for a string with no leading digits; page sizes
  and limits are numbers of this kind, so a fractional page size such as 0.5 is an input.
  Sums are exact in the model: they are the sums of JavaScript wherever that sum is a double
  again, which holds for the integers below \<open>2^53\<close> and for the short fractions used here.
  The infinities are outside the model.
\<close>

datatype jsnum = NaN | Num rat

fun js_add :: "jsnum \<Rightarrow> jsnum \<Rightarrow> jsnum" where
  "js_add (Num a) (Num b) = Num (a + b)"
| "js_add _ _ = NaN"

fun js_less :: "jsnum \<Rightarrow> jsnum \<Rightarrow> bool" where
  \<comment> \<open>\<open><\<close>: every comparison with \<open>NaN\<close> is false\<close>
  "js_less (Num a) (Num b) = (a < b)"
| "js_less _ _ = False"

fun toIntegerOrInfinity :: "jsnum \<Rightarrow> int" where
  \<comment> \<open>\<open>NaN\<close> becomes 0, a fraction is cut off towards zero\<close>
  "toIntegerOrInfinity NaN = 0"
| "toIntegerOrInfinity (Num a) = (if a < 0 then - \<lfloor>- a\<rfloor> else \<lfloor>a\<rfloor>)"

definition slice :: "'a list \<Rightarrow> jsnum \<Rightarrow> jsnum \<Rightarrow> 'a list" where
  \<comment> \<open>\<open>Array.prototype.slice(start, end)\<close>: a negative index counts from the end, and both
      indices are clamped to the array\<close>
  "slice xs start fin =
     (let len = int (length xs);
          relStart = toIntegerOrInfinity start;
          k = (if relStart < 0 then max (len + relStart) 0 else min relStart len);
          relEnd = toIntegerOrInfinity fin;
          final = (if relEnd < 0 then max (len + relEnd) 0 else min relEnd len)
      in take (nat (final - k)) (drop (nat k) xs))"

definition digit_char :: "nat \<Rightarrow> char" where
  "digit_char d = char_of (48 + d)"

definition digit_val :: "char \<Rightarrow> nat" where
  "digit_val c = of_char c - 48"

fun string_of_nat :: "nat \<Rightarrow> string" where
  "string_of_nat n =
     (if n < 10 then [digit_char n] else string_of_nat (n div 10) @ [digit_char (n mod 10)])"

declare string_of_nat.simps [simp del]

fun fraction_digits :: "nat \<Rightarrow> rat \<Rightarrow> string" where
  \<comment> \<open>the decimal digits of a fraction \<open>0 \<le> r < 1\<close>, at most as many as the first argument\<close>
  "fraction_digits 0 r = []"
| "fraction_digits (Suc k) r =
     (if r = 0 then []
      else digit_char (nat \<lfloor>10 * r\<rfloor>) # fraction_digits k (10 * r - of_int \<lfloor>10 * r\<rfloor>))"

definition unsigned_string :: "rat \<Rightarrow> string" where
  \<comment> \<open>the integer part, then for a fraction the point and the digits after it. JavaScript
      prints the shortest digits that read back as the same double: the same integer part
      and point, and for a fraction with a short expansion (0.5, 2.25) the same digits.\<close>
  "unsigned_string a =
     string_of_nat (nat \<lfloor>a\<rfloor>) @
     (if a = of_int \<lfloor>a\<rfloor> then [] else CHR ''.'' # fraction_digits 20 (a - of_int \<lfloor>a\<rfloor>))"

fun toString :: "jsnum \<Rightarrow> string" where
  \<comment> \<open>\<open>Number.prototype.toString()\<close>, in the range that is printed without an exponent\<close>
  "toString NaN = ''NaN''"
| "toString (Num a) = (if a < 0 then CHR ''-'' # unsigned_string (- a) else unsigned_string a)"

definition parseInt :: "string \<Rightarrow> jsnum" where
  \<comment> \<open>\<open>parseInt(s, 10)\<close>: skip white space, read a sign, read the longest run of decimal
      digits; with no digit the result is \<open>NaN\<close>. It never throws.\<close>
  "parseInt s =
     (let s1 = dropWhile is_space_char s;
          neg = (case s1 of [] \<Rightarrow> False | c # _ \<Rightarrow> c = CHR ''-'');
          s2 = (case s1 of [] \<Rightarrow> [] | c # r \<Rightarrow> if c = CHR ''-'' \<or> c = CHR ''+'' then r else s1);
          ds = takeWhile is_digit_char s2
      in if ds = [] then NaN
         else Num (of_int ((if neg then - 1 else 1) *
                           int (foldl (\<lambda>a c. 10 * a + digit_val c) 0 ds))))"

definition truthy :: "string option \<Rightarrow> bool" where
  \<comment> \<open>a cursor in a condition: \<open>null\<close>, \<open>undefined\<close> and the empty string are falsy\<close>
  "truthy c = (case c of None \<Rightarrow> False | Some s \<Rightarrow> s \<noteq> [])"

section \<open>The tokenizer (search.ts)\<close>

definition replace_punct :: "string \<Rightarrow> string" where
  \<comment> \<open>\<open>.replace(/[^\w\s]/g, ' ')\<close>\<close>
  "replace_punct s = map (\<lambda>c. if \<not> is_word_char c \<and> \<not> is_space_char c then CHR '' '' else c) s"

definition tokenize :: "string \<Rightarrow> string list" where
  "tokenize text = filter (\<lambda>token. length token > 0) (split_ws (replace_punct (toLowerCase text)))"

abbreviation nonempty_pieces :: "string \<Rightarrow> string list" where
  "nonempty_pieces s \<equiv> filter (\<lambda>t. t \<noteq> []) (split_ws s)"

subsection \<open>The tokenizer, in words\<close>

text \<open>
  The description of the tokenizer, written down on its own terms: lower-case the input,
  replace every character that is not a letter, a digit or an underscore by a space, split
  on runs of white space, drop the empty tokens. A letter is a letter of the alphabet at
  hand: in the first 256 code units these are A to Z, a to z, the two ordinal indicators,
  the micro sign, and U+00C0 to U+00FF without the multiplication and division signs.
\<close>

definition is_ascii_letter :: "char \<Rightarrow> bool" where
  "is_ascii_letter c = (let n = (of_char c :: nat) in (65 \<le> n \<and> n \<le> 90) \<or> (97 \<le> n \<and> n \<le> 122))"

definition is_letter_char :: "char \<Rightarrow> bool" where
  "is_letter_char c =
     (let n = (of_char c :: nat)
      in is_ascii_letter c \<or> n = 170 \<or> n = 181 \<or> n = 186 \<or>
         (192 \<le> n \<and> n \<le> 255 \<and> n \<noteq> 215 \<and> n \<noteq> 247))"

function split_runs :: "string \<Rightarrow> string list" where
  \<comment> \<open>the pieces of a string between its runs of white space: the piece before the first
      white space, then the pieces of what follows that run\<close>
  "split_runs s =
     (if dropWhile (\<lambda>c. \<not> is_space_char c) s = [] then [s]
      else takeWhile (\<lambda>c. \<not> is_space_char c) s #
           split_runs (dropWhile is_space_char (tl (dropWhile (\<lambda>c. \<not> is_space_char c) s))))"
  by pat_completeness auto

termination
proof (relation "measure length")
  show "wf (measure length)"
    by simp
next
  fix s :: string
  let ?r = "dropWhile (\<lambda>c. \<not> is_space_char c) s"
  assume "?r \<noteq> []"
  then have "Suc (length (tl ?r)) = length ?r"
    by simp
  moreover have "length ?r \<le> length s"
    by (rule length_dropWhile_le)
  moreover have "length (dropWhile is_space_char (tl ?r)) \<le> length (tl ?r)"
    by (rule length_dropWhile_le)
  ultimately show "(dropWhile is_space_char (tl ?r), s) \<in> measure length"
    by simp
qed

declare split_runs.simps [simp del]

definition tokenize_spec :: "string \<Rightarrow> string list" where
  \<comment> \<open>the description as it is worded\<close>
  "tokenize_spec text =
     filter (\<lambda>token. token \<noteq> [])
       (split_runs
          (map (\<lambda>c. if is_letter_char c \<or> is_digit_char c \<or> c = CHR ''_'' then c else CHR '' '')
             (toLowerCase text)))"

definition tokenize_spec_ascii :: "string \<Rightarrow> string list" where
  \<comment> \<open>the description with the letters A to Z and a to z only\<close>
  "tokenize_spec_ascii text =
     filter (\<lambda>token. token \<noteq> [])
       (split_runs
          (map (\<lambda>c. if is_ascii_letter c \<or> is_digit_char c \<or> c = CHR ''_'' then c else CHR '' '')
             (toLowerCase text)))"

section \<open>The data model (schema.ts)\<close>

text \<open>
  Document ids are opaque; the store hands out a fresh one at each insert. User ids are
  strings (the development user is a string constant). The numbers stored in a document
  (creation time, size, duration, width, height) are modelled by their integral values:
  \<open>createdAt\<close> is always written from \<open>Date.now()\<close>.
\<close>

datatype angle = Front | Side | Angle45

datatype apparatus = Floor | Rings | Bar | Parallettes

fun angle_string :: "angle \<Rightarrow> string" where
  "angle_string Front = ''front''"
| "angle_string Side = ''side''"
| "angle_string Angle45 = ''45''"

fun apparatus_string :: "apparatus \<Rightarrow> string" where
  "apparatus_string Floor = ''floor''"
| "apparatus_string Rings = ''rings''"
| "apparatus_string Bar = ''bar''"
| "apparatus_string Parallettes = ''parallettes''"

record session =
  docId :: nat
  userId :: string
  name :: string
  createdAt :: int

record clip =
  docId :: nat
  userId :: string
  objectKey :: string
  createdAt :: int
  bytes :: int
  durationMs :: "int option"
  width :: "int option"
  height :: "int option"
  tags :: "string list"
  angle :: "angle option"
  apparatus :: "apparatus option"
  favorite :: "bool option"
  sessionId :: "nat option"

text \<open>
  The store: each table is the list of its documents in insertion order. \<open>ctx\<close> is what a
  handler reads from its environment: the authenticated user, the store, and the clock and
  random source of the run.
\<close>

record database =
  sessions :: "session list"
  clips :: "clip list"
  nextId :: nat

record ctx =
  auth :: "string option"
  db :: database
  now :: int
  random :: string

datatype error =
    ClipNotFoundOrDenied      \<comment> \<open>\<open>"Clip not found or access denied"\<close>\<close>
  | SessionNotFoundOrDenied   \<comment> \<open>\<open>"Session not found or access denied"\<close>\<close>
  | FileTooLarge              \<comment> \<open>\<open>"File size ... exceeds maximum allowed size ..."\<close>\<close>
  | ContentTypeNotAllowed     \<comment> \<open>\<open>"Content type ... is not allowed. ..."\<close>\<close>
  | NotUnique                 \<comment> \<open>thrown by \<open>.unique()\<close> when more than one document matches\<close>

datatype success = Success

subsection \<open>The store's operations\<close>

definition get_clip :: "database \<Rightarrow> nat \<Rightarrow> clip option" where
  \<comment> \<open>\<open>ctx.db.get(id)\<close> on the table \<open>clips\<close>\<close>
  "get_clip d i = find (\<lambda>c. clip.docId c = i) (clips d)"

definition get_session :: "database \<Rightarrow> nat \<Rightarrow> session option" where
  "get_session d i = find (\<lambda>s. session.docId s = i) (sessions d)"

definition insert_clip :: "database \<Rightarrow> clip \<Rightarrow> nat \<times> database" where
  \<comment> \<open>\<open>ctx.db.insert("clips", doc)\<close>: the store chooses the id\<close>
  "insert_clip d c =
     (nextId d, d\<lparr>clips := clips d @ [c\<lparr>clip.docId := nextId d\<rparr>], nextId := Suc (nextId d)\<rparr>)"

definition insert_session :: "database \<Rightarrow> session \<Rightarrow> nat \<times> database" where
  "insert_session d s =
     (nextId d, d\<lparr>sessions := sessions d @ [s\<lparr>session.docId := nextId d\<rparr>], nextId := Suc (nextId d)\<rparr>)"

definition delete_clip :: "database \<Rightarrow> nat \<Rightarrow> database" where
  \<comment> \<open>\<open>ctx.db.delete(id)\<close>\<close>
  "delete_clip d i = d\<lparr>clips := filter (\<lambda>c. clip.docId c \<noteq> i) (clips d)\<rparr>"

definition delete_session :: "database \<Rightarrow> nat \<Rightarrow> database" where
  "delete_session d i = d\<lparr>sessions := filter (\<lambda>s. session.docId s \<noteq> i) (sessions d)\<rparr>"

definition by_user_and_created_at :: "database \<Rightarrow> string \<Rightarrow> clip list" where
  \<comment> \<open>\<open>.withIndex("by_user_and_created_at", q => q.eq("userId", userId))\<close>: the clips of
      one user, in index order (ascending \<open>createdAt\<close>, then insertion order)\<close>
  "by_user_and_created_at d u = sort_key createdAt (filter (\<lambda>c. clip.userId c = u) (clips d))"

definition order_desc :: "clip list \<Rightarrow> clip list" where
  \<comment> \<open>\<open>.order("desc").collect()\<close>: the index order, backwards\<close>
  "order_desc cs = rev cs"

section \<open>The caller\<close>

definition DEV_USER_ID :: string where
  "DEV_USER_ID = ''k17c9p6nqx6j9nqx6j9nqx6j9nqx6j9n''"

definition getCurrentUserId :: "ctx \<Rightarrow> string" where
  \<comment> \<open>\<open>if (userId) return userId\<close>: \<open>null\<close> and the empty string fall through to the
      development user\<close>
  "getCurrentUserId c =
     (case auth c of Some u \<Rightarrow> if u \<noteq> [] then u else DEV_USER_ID | None \<Rightarrow> DEV_USER_ID)"

section \<open>Clips: get, list, updateMeta, deleteClip\<close>

text \<open>
  A query returns its value or the error it throws. A mutation returns that and the store
  it leaves: a handler that throws before its first write leaves the store it found.
\<close>

definition clips_getPlaybackUrl :: "ctx \<Rightarrow> string \<Rightarrow> error + string" where
  \<comment> \<open>the handler looks the clip up by owner and key with \<open>.unique()\<close>, then has the object
      store sign a URL for the key; the model returns the key that is signed\<close>
  "clips_getPlaybackUrl c objectKey_arg =
     (let userId = getCurrentUserId c
      in case filter (\<lambda>clip. clip.userId clip = userId \<and> objectKey clip = objectKey_arg)
                (clips (db c)) of
           [] \<Rightarrow> Inl ClipNotFoundOrDenied
         | [clip] \<Rightarrow> Inr objectKey_arg
         | _ \<Rightarrow> Inl NotUnique)"

definition clips_get :: "ctx \<Rightarrow> nat \<Rightarrow> error + clip" where
  "clips_get c id_arg =
     (let userId = getCurrentUserId c
      in case get_clip (db c) id_arg of
           None \<Rightarrow> Inl ClipNotFoundOrDenied
         | Some clip \<Rightarrow>
             if clip.userId clip \<noteq> userId then Inl ClipNotFoundOrDenied else Inr clip)"

record pagination_opts =
  numItems :: rat
  cursor :: "string option"

record date_range =
  range_start :: int
  range_end :: int

text \<open>
  The five optional metadata arguments that \<open>list\<close> and \<open>updateMeta\<close> both declare;
  \<open>None\<close> is \<open>undefined\<close>.
\<close>

record meta_args =
  arg_tags :: "string list option"
  arg_angle :: "angle option"
  arg_apparatus :: "apparatus option"
  arg_favorite :: "bool option"
  arg_sessionId :: "nat option"

record list_args = meta_args +
  paginationOpts :: pagination_opts
  dateRange :: "date_range option"

record list_result =
  page :: "clip list"
  isDone :: bool
  continueCursor :: "string option"

definition list_results :: "ctx \<Rightarrow> list_args \<Rightarrow> clip list" where
  \<comment> \<open>the value of \<open>results\<close> when the handler reaches its pagination\<close>
  "list_results c args =
     (let userId = getCurrentUserId c;
          query = by_user_and_created_at (db c) userId;
          query = (case dateRange args of
                     Some r \<Rightarrow>
                       filter (\<lambda>clip. range_start r \<le> createdAt clip \<and> createdAt clip \<le> range_end r) query
                   | None \<Rightarrow> query);
          results = order_desc query;
          results = (case arg_tags args of
                       Some ts \<Rightarrow>
                         if length ts > 0
                         then filter (\<lambda>clip. list_ex (\<lambda>tag. tag \<in> set (tags clip)) ts) results
                         else results
                     | None \<Rightarrow> results);
          results = (case arg_angle args of
                       Some a \<Rightarrow> filter (\<lambda>clip. angle clip = Some a) results
                     | None \<Rightarrow> results);
          results = (case arg_apparatus args of
                       Some a \<Rightarrow> filter (\<lambda>clip. apparatus clip = Some a) results
                     | None \<Rightarrow> results);
          results = (case arg_favorite args of
                       Some f \<Rightarrow> filter (\<lambda>clip. favorite clip = Some f) results
                     | None \<Rightarrow> results);
          results = (case arg_sessionId args of
                       Some s \<Rightarrow> filter (\<lambda>clip. sessionId clip = Some s) results
                     | None \<Rightarrow> results)
      in results)"

definition list_page :: "clip list \<Rightarrow> pagination_opts \<Rightarrow> list_result" where
  \<comment> \<open>the handler's manual pagination of \<open>results\<close>\<close>
  "list_page results opts =
     (let cursor = cursor opts;
          startIndex = (if truthy cursor then parseInt (the cursor) else Num 0);
          endIndex = js_add startIndex (Num (numItems opts));
          page = slice results startIndex endIndex;
          hasMore = js_less endIndex (Num (of_nat (length results)))
      in \<lparr>page = page,
          isDone = \<not> hasMore,
          continueCursor = (if hasMore then Some (toString endIndex) else None)\<rparr>)"

definition clips_list :: "ctx \<Rightarrow> list_args \<Rightarrow> list_result" where
  "clips_list c args = list_page (list_results c args) (paginationOpts args)"

record updateMeta_args = meta_args +
  arg_id :: nat

record updates =
  upd_tags :: "string list option"
  upd_angle :: "angle option"
  upd_apparatus :: "apparatus option"
  upd_favorite :: "bool option"
  upd_sessionId :: "nat option"

definition apply_updates :: "updates \<Rightarrow> clip \<Rightarrow> clip" where
  \<comment> \<open>the shallow merge of \<open>patch\<close>: a key of the object replaces the field, a key that the
      object does not have leaves it\<close>
  "apply_updates u c =
     c\<lparr>tags := (case upd_tags u of None \<Rightarrow> tags c | Some v \<Rightarrow> v),
       angle := (case upd_angle u of None \<Rightarrow> angle c | Some v \<Rightarrow> Some v),
       apparatus := (case upd_apparatus u of None \<Rightarrow> apparatus c | Some v \<Rightarrow> Some v),
       favorite := (case upd_favorite u of None \<Rightarrow> favorite c | Some v \<Rightarrow> Some v),
       sessionId := (case upd_sessionId u of None \<Rightarrow> sessionId c | Some v \<Rightarrow> Some v)\<rparr>"

definition patch_clip :: "database \<Rightarrow> nat \<Rightarrow> updates \<Rightarrow> database" where
  \<comment> \<open>\<open>ctx.db.patch(id, updates)\<close>\<close>
  "patch_clip d i u = d\<lparr>clips := map (\<lambda>c. if clip.docId c = i then apply_updates u c else c) (clips d)\<rparr>"

definition clips_updateMeta :: "ctx \<Rightarrow> updateMeta_args \<Rightarrow> (error + success) \<times> database" where
  "clips_updateMeta c args =
     (let userId = getCurrentUserId c
      in case get_clip (db c) (arg_id args) of
           None \<Rightarrow> (Inl ClipNotFoundOrDenied, db c)
         | Some clip \<Rightarrow>
             if clip.userId clip \<noteq> userId then (Inl ClipNotFoundOrDenied, db c)
             else
               (let updates = \<lparr>upd_tags = arg_tags args,
                               upd_angle = arg_angle args,
                               upd_apparatus = arg_apparatus args,
                               upd_favorite = arg_favorite args,
                               upd_sessionId = arg_sessionId args\<rparr>
                in (Inr Success, patch_clip (db c) (arg_id args) updates)))"

definition clips_deleteClip :: "ctx \<Rightarrow> nat \<Rightarrow> (error + success) \<times> database" where
  "clips_deleteClip c id_arg =
     (let userId = getCurrentUserId c
      in case get_clip (db c) id_arg of
           None \<Rightarrow> (Inl ClipNotFoundOrDenied, db c)
         | Some clip \<Rightarrow>
             if clip.userId clip \<noteq> userId then (Inl ClipNotFoundOrDenied, db c)
             else (Inr Success, delete_clip (db c) id_arg))"

section \<open>Search: matchesQuery and query\<close>

definition matchesQuery :: "clip \<Rightarrow> string list \<Rightarrow> bool" where
  "matchesQuery clip queryTokens =
     (let searchableFields =
            tags clip @
            [objectKey clip,
             (case angle clip of Some a \<Rightarrow> angle_string a | None \<Rightarrow> []),
             (case apparatus clip of Some a \<Rightarrow> apparatus_string a | None \<Rightarrow> [])];
          searchText = toLowerCase (join '' '' searchableFields);
          searchTokens = tokenize searchText
      in list_all (\<lambda>queryToken.
           list_ex (\<lambda>searchToken.
             js_includes searchToken queryToken \<or> js_includes queryToken searchToken) searchTokens)
           queryTokens)"

record query_args =
  arg_q :: string
  arg_limit :: "rat option"
  arg_cursor :: "string option"

record query_result =
  results :: "clip list"
  cursor :: "string option"
  isDone :: bool

definition matchingClips :: "ctx \<Rightarrow> string list \<Rightarrow> clip list" where
  \<comment> \<open>the value of \<open>matchingClips\<close> when the handler reaches its pagination\<close>
  "matchingClips c queryTokens =
     (let userId = getCurrentUserId c;
          allClips = order_desc (by_user_and_created_at (db c) userId)
      in filter (\<lambda>clip. matchesQuery clip queryTokens) allClips)"

definition query_page :: "clip list \<Rightarrow> rat \<Rightarrow> string option \<Rightarrow> query_result" where
  \<comment> \<open>the handler's pagination of \<open>matchingClips\<close>. The \<open>catch\<close> branch of the source is not a
      branch of the model: \<open>parseInt\<close> returns and never throws.\<close>
  "query_page matching limit cur =
     (let startIndex = (if truthy cur then parseInt (the cur) else Num 0);
          endIndex = js_add startIndex (Num limit);
          results = slice matching startIndex endIndex;
          hasMore = js_less endIndex (Num (of_nat (length matching)))
      in \<lparr>results = results,
          cursor = (if hasMore then Some (toString endIndex) else None),
          isDone = \<not> hasMore\<rparr>)"

definition search_query :: "ctx \<Rightarrow> query_args \<Rightarrow> query_result" where
  "search_query c args =
     (let limit = (case arg_limit args of None \<Rightarrow> 20 | Some l \<Rightarrow> if l = 0 then 20 else l)
      in if trim (arg_q args) = [] then \<lparr>results = [], cursor = None, isDone = True\<rparr>
         else
           (let queryTokens = tokenize (arg_q args)
            in if length queryTokens = 0 then \<lparr>results = [], cursor = None, isDone = True\<rparr>
               else query_page (matchingClips c queryTokens) limit (arg_cursor args)))"

section \<open>Sessions and uploads\<close>

definition sessions_create :: "ctx \<Rightarrow> string \<Rightarrow> nat \<times> database" where
  "sessions_create c name_arg =
     (let userId = getCurrentUserId c
      in insert_session (db c)
           \<lparr>session.docId = 0, userId = userId, name = name_arg, createdAt = now c\<rparr>)"

definition sessions_deleteSession :: "ctx \<Rightarrow> nat \<Rightarrow> (error + success) \<times> database" where
  "sessions_deleteSession c id_arg =
     (let userId = getCurrentUserId c
      in case get_session (db c) id_arg of
           None \<Rightarrow> (Inl SessionNotFoundOrDenied, db c)
         | Some session \<Rightarrow>
             if session.userId session \<noteq> userId then (Inl SessionNotFoundOrDenied, db c)
             else (Inr Success, delete_session (db c) id_arg))"

definition MAX_FILE_SIZE :: int where
  "MAX_FILE_SIZE = 500 * 1024 * 1024"

definition ALLOWED_MIME_TYPES :: "string list" where
  "ALLOWED_MIME_TYPES =
     [''video/mp4'', ''video/quicktime'', ''video/x-matroska'', ''video/webm'', ''video/avi'',
      ''video/mov'']"

record requestUpload_args =
  arg_contentType :: string
  arg_ext :: string
  arg_sizeBytes :: int

definition requestUpload :: "ctx \<Rightarrow> requestUpload_args \<Rightarrow> (error + string) \<times> database" where
  \<comment> \<open>the object key that the handler returns; the presigned URL is the object store's. The
      handler writes nothing to the store.\<close>
  "requestUpload c args =
     (let userId = getCurrentUserId c
      in if arg_sizeBytes args > MAX_FILE_SIZE then (Inl FileTooLarge, db c)
         else if arg_contentType args \<notin> set ALLOWED_MIME_TYPES then (Inl ContentTypeNotAllowed, db c)
         else
           (let timestamp = now c;
                objectKey = ''clips/'' @ userId @ ''/'' @ toString (Num (of_int timestamp)) @ ''-'' @ random c
                              @ ''.'' @ arg_ext args
            in (Inr objectKey, db c)))"

record finalizeUpload_args =
  arg_objectKey :: string
  arg_bytes :: int
  arg_durationMs :: "int option"
  arg_width :: "int option"
  arg_height :: "int option"

definition finalizeUpload :: "ctx \<Rightarrow> finalizeUpload_args \<Rightarrow> (error + nat) \<times> database" where
  "finalizeUpload c args =
     (let userId = getCurrentUserId c
      in if arg_bytes args > MAX_FILE_SIZE then (Inl FileTooLarge, db c)
         else
           (let (clipId, d) =
                  insert_clip (db c)
                    \<lparr>clip.docId = 0,
                     userId = userId,
                     objectKey = arg_objectKey args,
                     createdAt = now c,
                     bytes = arg_bytes args,
                     durationMs = arg_durationMs args,
                     width = arg_width args,
                     height = arg_height args,
                     tags = [],
                     angle = None,
                     apparatus = None,
                     favorite = Some False,
                     sessionId = None\<rparr>
            in (Inr clipId, d)))"

section \<open>The filter fields, in words\<close>

text \<open>
  What the listing's contract says of one clip and one filter object: every supplied field
  is satisfied, an absent field asks nothing. A tag filter is satisfied when the clip's tags
  and the supplied tags have a tag in common; \<open>angle\<close>, \<open>apparatus\<close>, \<open>favorite\<close> and
  \<open>sessionId\<close> when the stored value is the supplied one; the date range when
  \<open>start \<le> createdAt \<le> end\<close>.
\<close>

definition satisfies_as_specified :: "list_args \<Rightarrow> clip \<Rightarrow> bool" where
  "satisfies_as_specified args clip =
     ((case arg_tags args of None \<Rightarrow> True | Some ts \<Rightarrow> set (tags clip) \<inter> set ts \<noteq> {}) \<and>
      (case arg_angle args of None \<Rightarrow> True | Some a \<Rightarrow> angle clip = Some a) \<and>
      (case arg_apparatus args of None \<Rightarrow> True | Some a \<Rightarrow> apparatus clip = Some a) \<and>
      (case arg_favorite args of None \<Rightarrow> True | Some f \<Rightarrow> favorite clip = Some f) \<and>
      (case arg_sessionId args of None \<Rightarrow> True | Some i \<Rightarrow> sessionId clip = Some i) \<and>
      (case dateRange args of None \<Rightarrow> True
       | Some r \<Rightarrow> range_start r \<le> createdAt clip \<and> createdAt clip \<le> range_end r))"

text \<open>
  The same, with the one difference the handler makes: a supplied tag list that is empty
  asks nothing.
\<close>

definition passes_filters :: "list_args \<Rightarrow> clip \<Rightarrow> bool" where
  "passes_filters args clip =
     ((case arg_tags args of None \<Rightarrow> True
       | Some ts \<Rightarrow> ts = [] \<or> set (tags clip) \<inter> set ts \<noteq> {}) \<and>
      (case arg_angle args of None \<Rightarrow> True | Some a \<Rightarrow> angle clip = Some a) \<and>
      (case arg_apparatus args of None \<Rightarrow> True | Some a \<Rightarrow> apparatus clip = Some a) \<and>
      (case arg_favorite args of None \<Rightarrow> True | Some f \<Rightarrow> favorite clip = Some f) \<and>
      (case arg_sessionId args of None \<Rightarrow> True | Some i \<Rightarrow> sessionId clip = Some i) \<and>
      (case dateRange args of None \<Rightarrow> True
       | Some r \<Rightarrow> range_start r \<le> createdAt clip \<and> createdAt clip \<le> range_end r))"

section \<open>Substrings, in words\<close>

text \<open>\<open>is_substring t s\<close>: the string \<open>s\<close> contains \<open>t\<close> as a substring.\<close>

definition is_substring :: "string \<Rightarrow> string \<Rightarrow> bool" where
  "is_substring t s = (\<exists>ps ss. s = ps @ t @ ss)"

section \<open>Object keys\<close>

text \<open>The invariant of the data model: no two clip records hold the same object key.\<close>

definition object_keys_unique :: "database \<Rightarrow> bool" where
  "object_keys_unique d = distinct (map objectKey (clips d))"

section \<open>A client that follows the cursor\<close>

text \<open>
  The reader of a listing: it asks for the first page with no cursor, then for the page at
  each cursor it is handed, until a page says it is the last one, and concatenates the pages.
  \<open>fetch\<close> is one request: it returns the page, the done flag and the next cursor. The first
  argument bounds the number of requests; \<open>None\<close> means the bound was reached.
\<close>

fun follow_cursor ::
  "nat \<Rightarrow> (string option \<Rightarrow> 'a list \<times> bool \<times> string option) \<Rightarrow> string option \<Rightarrow> 'a list option" where
  "follow_cursor 0 fetch cur = None"
| "follow_cursor (Suc k) fetch cur =
     (case fetch cur of
        (pg, done, next) \<Rightarrow>
          if done then Some pg
          else map_option (\<lambda>rest. pg @ rest) (follow_cursor k fetch next))"

definition clips_list_fetch ::
  "ctx \<Rightarrow> list_args \<Rightarrow> rat \<Rightarrow> string option \<Rightarrow> clip list \<times> bool \<times> string option" where
  \<comment> \<open>one call of \<open>list\<close> with the given filters, page size and cursor\<close>
  "clips_list_fetch c args n cur =
     (let r = clips_list c (args\<lparr>paginationOpts := \<lparr>numItems = n, cursor = cur\<rparr>\<rparr>)
      in (page r, list_result.isDone r, continueCursor r))"

definition search_query_fetch ::
  "ctx \<Rightarrow> string \<Rightarrow> rat option \<Rightarrow> string option \<Rightarrow> clip list \<times> bool \<times> string option" where
  \<comment> \<open>one call of \<open>query\<close> with the given text, limit and cursor\<close>
  "search_query_fetch c q limit cur =
     (let r = search_query c \<lparr>arg_q = q, arg_limit = limit, arg_cursor = cur\<rparr>
      in (results r, query_result.isDone r, query_result.cursor r))"

section \<open>A small store, for the concrete instances\<close>

definition clipA :: clip where
  "clipA = \<lparr>clip.docId = 11, userId = ''alice'', objectKey = ''clips/alice/100-x1.mp4'',
             createdAt = 100, bytes = 1000, durationMs = Some 5000, width = None, height = None,
             tags = [''handstand'', ''front''], angle = Some Front, apparatus = Some Floor,
             favorite = Some True, sessionId = Some 7\<rparr>"

definition clipB :: clip where
  "clipB = \<lparr>clip.docId = 12, userId = ''alice'', objectKey = ''clips/alice/200-y2.mp4'',
             createdAt = 200, bytes = 2000, durationMs = None, width = None, height = None,
             tags = [''press''], angle = None, apparatus = None,
             favorite = Some False, sessionId = None\<rparr>"

definition clipC :: clip where
  "clipC = \<lparr>clip.docId = 13, userId = ''bob'', objectKey = ''clips/bob/150-z3.mp4'',
             createdAt = 150, bytes = 3000, durationMs = None, width = None, height = None,
             tags = [''handstand''], angle = None, apparatus = None,
             favorite = Some False, sessionId = None\<rparr>"

definition clipD :: clip where
  "clipD = \<lparr>clip.docId = 14, userId = ''alice'', objectKey = ''clips/alice/hand.mp4'',
             createdAt = 250, bytes = 4000, durationMs = None, width = None, height = None,
             tags = [''floor''], angle = None, apparatus = None,
             favorite = None, sessionId = None\<rparr>"

definition clipE :: clip where
  "clipE = \<lparr>clip.docId = 15, userId = ''bob'', objectKey = ''clips/bob/400-w5.mp4'',
             createdAt = 400, bytes = 5000, durationMs = None, width = None, height = None,
             tags = [''floor''], angle = Some Side, apparatus = Some Floor,
             favorite = Some False, sessionId = None\<rparr>"

definition cafe :: string where
  \<comment> \<open>the word "cafe" with an acute accent on its last letter (U+00E9)\<close>
  "cafe = ''caf'' @ [char_of (233 :: nat)]"

definition session7 :: session where
  "session7 = \<lparr>session.docId = 7, userId = ''alice'', name = ''monday'', createdAt = 50\<rparr>"

definition store0 :: database where
  "store0 = \<lparr>sessions = [session7], clips = [clipA, clipB, clipC, clipD], nextId = 20\<rparr>"

definition alice :: ctx where
  "alice = \<lparr>auth = Some ''alice'', db = store0, now = 300, random = ''r4nd0m''\<rparr>"

definition no_filters :: list_args where
  "no_filters = \<lparr>arg_tags = None, arg_angle = None, arg_apparatus = None, arg_favorite = None,
                  arg_sessionId = None,
                  paginationOpts = \<lparr>numItems = 10, cursor = None\<rparr>, dateRange = None\<rparr>"

definition empty_store :: database where
  "empty_store = \<lparr>sessions = [], clips = [], nextId = 0\<rparr>"

definition upload_x1 :: finalizeUpload_args where
  "upload_x1 = \<lparr>arg_objectKey = ''clips/alice/100-x1.mp4'', arg_bytes = 1000,
                 arg_durationMs = None, arg_width = None, arg_height = None\<rparr>"

definition after_first_upload :: database where
  "after_first_upload =
     snd (finalizeUpload \<lparr>auth = Some ''alice'', db = empty_store, now = 100, random = ''x1''\<rparr>
            upload_x1)"

definition after_second_upload :: database where
  "after_second_upload =
     snd (finalizeUpload \<lparr>auth = Some ''bob'', db = after_first_upload, now = 200, random = ''y2''\<rparr>
            upload_x1)"

definition after_third_upload :: database where
  "after_third_upload =
     snd (finalizeUpload \<lparr>auth = Some ''alice'', db = after_second_upload, now = 300, random = ''z3''\<rparr>
            upload_x1)"

definition after_delete_and_upload :: database where
  "after_delete_and_upload =
     snd (finalizeUpload
            \<lparr>auth = Some ''alice'',
             db = snd (clips_deleteClip
                         \<lparr>auth = Some ''alice'', db = after_first_upload, now = 150, random = ''z3''\<rparr> 0),
             now = 200, random = ''y2''\<rparr>
            upload_x1)"

section \<open>Lemmas on the store\<close>

lemma find_map_keep:
  assumes "\<And>x. P (f x) = P x"
  shows "find P (map f xs) = map_option f (find P xs)"
  using assms by (induction xs) auto

lemma find_filter_other:
  "find (\<lambda>x. g x = i) (filter (\<lambda>x. g x \<noteq> j) xs) =
     (if i = j then None else find (\<lambda>x. g x = i) xs)"
  by (induction xs) auto

lemma docId_apply_updates: "clip.docId (apply_updates u c) = clip.docId c"
  by (simp add: apply_updates_def)

lemma get_clip_patch:
  "get_clip (patch_clip d i u) j =
     map_option (\<lambda>c. if clip.docId c = i then apply_updates u c else c) (get_clip d j)"
  unfolding get_clip_def patch_clip_def
  by (simp add: find_map_keep docId_apply_updates)

lemma get_clip_docId: "get_clip d i = Some c \<Longrightarrow> clip.docId c = i"
  unfolding get_clip_def by (auto simp: find_Some_iff)

section \<open>The tokenizer\<close>

lemma of_char_lt_256: "(of_char c :: nat) < 256"
  by (cases c) (simp add: of_char_Char)

lemma space_char_is_space: "is_space_char CHR '' ''"
  by (simp add: is_space_char_def)

lemma word_not_space: "is_word_char c \<Longrightarrow> \<not> is_space_char c"
  by (auto simp: is_word_char_def is_space_char_def Let_def)

lemma lower_char_word: "is_word_char (lower_char c) = is_word_char c"
proof -
  have "(of_char c :: nat) < 256" by (rule of_char_lt_256)
  then show ?thesis
    by (auto simp: is_word_char_def lower_char_def Let_def)
qed

lemma lower_char_idem: "lower_char (lower_char c) = lower_char c"
proof -
  have "(of_char c :: nat) < 256" by (rule of_char_lt_256)
  then show ?thesis
    by (auto simp: lower_char_def Let_def)
qed

lemma toLowerCase_idem: "toLowerCase (toLowerCase s) = toLowerCase s"
  by (simp add: toLowerCase_def lower_char_idem)

lemma toLowerCase_append: "toLowerCase (a @ b) = toLowerCase a @ toLowerCase b"
  by (simp add: toLowerCase_def)

lemma split_ws_nonempty: "split_ws s \<noteq> []"
  by (induction s) (auto split: list.splits)

lemma starts_with_space_map:
  assumes "\<And>c. is_space_char (f c) = is_space_char (g c)"
  shows "starts_with_space (map f s) = starts_with_space (map g s)"
  using assms by (cases s) simp_all

lemma split_ws_map_cong:
  assumes sp: "\<And>c. is_space_char (f c) = is_space_char (g c)"
    and eq: "\<And>c. \<not> is_space_char (f c) \<Longrightarrow> f c = g c"
  shows "split_ws (map f s) = split_ws (map g s)"
proof (induction s)
  case Nil
  show ?case by simp
next
  case (Cons c cs)
  show ?case
  proof (cases "is_space_char (f c)")
    case True
    then have "is_space_char (g c)" using sp by simp
    with True Cons show ?thesis
      by (simp add: starts_with_space_map [of f g, OF sp])
  next
    case False
    then have "\<not> is_space_char (g c)" "f c = g c" using sp eq by simp_all
    with False Cons show ?thesis by simp
  qed
qed

lemma concat_split_ws: "concat (split_ws s) = filter (\<lambda>c. \<not> is_space_char c) s"
proof (induction s)
  case Nil
  show ?case by simp
next
  case (Cons c cs)
  then show ?case
    using split_ws_nonempty [of cs] by (auto split: list.splits)
qed

lemma split_ws_pieces: "p \<in> set (split_ws s) \<Longrightarrow> c \<in> set p \<Longrightarrow> \<not> is_space_char c"
proof -
  assume "p \<in> set (split_ws s)" "c \<in> set p"
  then have "c \<in> set (concat (split_ws s))" by auto
  then show ?thesis by (simp add: concat_split_ws)
qed

lemma concat_filter_nonempty: "concat (filter (\<lambda>t. t \<noteq> []) xs) = concat xs"
  by (induction xs) auto

lemma tokenize_alt:
  "tokenize text = filter (\<lambda>t. t \<noteq> []) (split_ws (replace_punct (toLowerCase text)))"
  by (simp add: tokenize_def)

lemma replace_punct_keeps:
  "filter (\<lambda>c. \<not> is_space_char c) (replace_punct s) = filter is_word_char s"
  unfolding replace_punct_def
  by (induction s) (auto simp: space_char_is_space word_not_space)

lemma concat_tokenize: "concat (tokenize text) = filter is_word_char (toLowerCase text)"
  by (simp add: tokenize_alt concat_filter_nonempty concat_split_ws replace_punct_keeps)

lemma tokenize_tokens:
  assumes "t \<in> set (tokenize text)"
  shows "t \<noteq> [] \<and> (\<forall>c \<in> set t. is_word_char c)"
proof -
  from assms have "set t \<subseteq> set (concat (tokenize text))" by auto
  then have "\<forall>c \<in> set t. is_word_char c"
    by (auto simp: concat_tokenize)
  with assms show ?thesis by (simp add: tokenize_alt)
qed

lemma split_runs_Nil: "split_runs [] = [[]]"
  using split_runs.simps [of "[]"] by simp

lemma split_runs_space:
  assumes "is_space_char c"
  shows "split_runs (c # cs) = [] # split_runs (dropWhile is_space_char cs)"
  using split_runs.simps [of "c # cs"] assms by simp

lemma split_runs_nonspace:
  assumes "\<not> is_space_char c"
  shows "split_runs (c # cs) = (c # hd (split_runs cs)) # tl (split_runs cs)"
proof (cases "dropWhile (\<lambda>c. \<not> is_space_char c) cs = []")
  case True
  have "split_runs cs = [cs]"
    using split_runs.simps [of cs] True by (simp del: dropWhile_eq_Nil_conv)
  moreover have "split_runs (c # cs) = [c # cs]"
    using split_runs.simps [of "c # cs"] assms True by (simp del: dropWhile_eq_Nil_conv)
  ultimately show ?thesis
    by simp
next
  case False
  let ?next = "split_runs (dropWhile is_space_char (tl (dropWhile (\<lambda>c. \<not> is_space_char c) cs)))"
  have "split_runs cs = takeWhile (\<lambda>c. \<not> is_space_char c) cs # ?next"
    using split_runs.simps [of cs] False by (simp del: dropWhile_eq_Nil_conv)
  moreover have "split_runs (c # cs) = (c # takeWhile (\<lambda>c. \<not> is_space_char c) cs) # ?next"
    using split_runs.simps [of "c # cs"] assms False by (simp del: dropWhile_eq_Nil_conv)
  ultimately show ?thesis
    by simp
qed

lemma split_runs_eq_split_ws: "split_runs s = split_ws s"
proof (induction s)
  case Nil
  show ?case by (simp add: split_runs_Nil)
next
  case (Cons c cs)
  show ?case
  proof (cases "is_space_char c")
    case False
    then show ?thesis
      using Cons split_ws_nonempty [of cs]
      by (simp add: split_runs_nonspace split: list.splits)
  next
    case True
    show ?thesis
    proof (cases cs)
      case Nil
      with True show ?thesis
        by (simp add: split_runs_space split_runs_Nil)
    next
      case (Cons d ds)
      show ?thesis
      proof (cases "is_space_char d")
        case sp: True
        have "split_ws cs = [] # split_runs (dropWhile is_space_char ds)"
          using Cons.IH sp unfolding Cons by (simp only: split_runs_space)
        with True sp Cons show ?thesis
          by (simp add: split_runs_space)
      next
        case nsp: False
        with True Cons Cons.IH show ?thesis
          by (simp add: split_runs_space)
      qed
    qed
  qed
qed

lemma underscore_char: "(of_char c = (95 :: nat)) = (c = CHR ''_'')"
proof
  assume "of_char c = (95 :: nat)"
  then have "char_of (of_char c :: nat) = char_of (95 :: nat)"
    by simp
  moreover have "char_of (95 :: nat) = CHR ''_''"
    by code_simp
  ultimately show "c = CHR ''_''"
    by simp
next
  assume "c = CHR ''_''"
  then show "of_char c = (95 :: nat)"
    by simp
qed

lemma word_char_classes:
  "is_word_char c = (is_ascii_letter c \<or> is_digit_char c \<or> c = CHR ''_'')"
  unfolding is_word_char_def is_ascii_letter_def is_digit_char_def Let_def
    underscore_char [symmetric]
  by auto

lemma lower_char_not_letter:
  assumes "\<not> is_letter_char c"
  shows "lower_char c = c"
  using assms
  by (auto simp: is_letter_char_def is_ascii_letter_def lower_char_def Let_def)

lemma tokenize_eq_spec_ascii: "tokenize text = tokenize_spec_ascii text"
proof -
  have "split_ws (map (\<lambda>c. if \<not> is_word_char c \<and> \<not> is_space_char c then CHR '' '' else c) s) =
        split_ws (map (\<lambda>c. if is_word_char c then c else CHR '' '') s)" for s
    by (rule split_ws_map_cong) (auto simp: space_char_is_space word_not_space)
  then show ?thesis
    by (simp add: tokenize_alt tokenize_spec_ascii_def replace_punct_def split_runs_eq_split_ws
        word_char_classes)
qed

lemma tokenize_no_word:
  assumes "\<forall>c \<in> set text. \<not> is_word_char c"
  shows "tokenize text = []"
proof -
  have "filter is_word_char (toLowerCase text) = []"
    using assms by (simp add: toLowerCase_def filter_empty_conv lower_char_word)
  then have "concat (tokenize text) = []" by (simp add: concat_tokenize)
  then have "\<forall>t \<in> set (tokenize text). t = []" by simp
  moreover have "\<forall>t \<in> set (tokenize text). t \<noteq> []" by (simp add: tokenize_alt)
  ultimately show ?thesis
    by (cases "tokenize text") auto
qed

lemma ascii_letter_is_letter: "is_ascii_letter c \<Longrightarrow> is_letter_char c"
  by (simp add: is_letter_char_def Let_def)

lemma tokenize_no_letter:
  assumes "\<forall>c \<in> set input. \<not> is_letter_char c \<and> \<not> is_digit_char c \<and> c \<noteq> CHR ''_''"
  shows "tokenize input = []"
proof (rule tokenize_no_word)
  show "\<forall>c \<in> set input. \<not> is_word_char c"
  proof
    fix c
    assume "c \<in> set input"
    with assms have "\<not> is_letter_char c" "\<not> is_digit_char c" "c \<noteq> CHR ''_''"
      by simp_all
    moreover from this have "\<not> is_ascii_letter c"
      using ascii_letter_is_letter by blast
    ultimately show "\<not> is_word_char c"
      unfolding word_char_classes by simp
  qed
qed

text \<open>
  Claim C5, as the code has it. \<open>tokenize\<close> is a total function of its input alone, and its
  result is the one the description gives when a letter is one of A to Z and a to z:
  lower-case the input, replace every character that is not such a letter, a digit or an
  underscore by a space, split on runs of white space, drop the empty tokens. The empty
  input, every input with no letter of any kind, digit or underscore (an input of
  punctuation), and every input whose lower-cased text has no a to z, digit or underscore
  give no token. Every token is non-empty and made of a to z, digits and underscores only,
  and the tokens together are those characters of the lower-cased input, in order.
\<close>

theorem tokenize_meets_its_ascii_description:
  "tokenize input = tokenize_spec_ascii input \<and>
   tokenize [] = [] \<and>
   ((\<forall>c \<in> set input. \<not> is_letter_char c \<and> \<not> is_digit_char c \<and> c \<noteq> CHR ''_'') \<longrightarrow>
      tokenize input = []) \<and>
   ((\<forall>c \<in> set (toLowerCase input). \<not> (is_ascii_letter c \<or> is_digit_char c \<or> c = CHR ''_'')) \<longrightarrow>
      tokenize input = []) \<and>
   (\<forall>t \<in> set (tokenize input).
      t \<noteq> [] \<and> (\<forall>c \<in> set t. is_ascii_letter c \<or> is_digit_char c \<or> c = CHR ''_'')) \<and>
   concat (tokenize input) =
     filter (\<lambda>c. is_ascii_letter c \<or> is_digit_char c \<or> c = CHR ''_'') (toLowerCase input)"
proof -
  have same: "tokenize input = tokenize_spec_ascii input"
    by (rule tokenize_eq_spec_ascii)
  have empty: "tokenize [] = []"
    by (rule tokenize_no_word) simp
  have punct:
    "(\<forall>c \<in> set input. \<not> is_letter_char c \<and> \<not> is_digit_char c \<and> c \<noteq> CHR ''_'') \<longrightarrow>
       tokenize input = []"
    by (rule impI) (rule tokenize_no_letter)
  have lowered:
    "(\<forall>c \<in> set (toLowerCase input). \<not> (is_ascii_letter c \<or> is_digit_char c \<or> c = CHR ''_'')) \<longrightarrow>
       tokenize input = []"
  proof
    assume "\<forall>c \<in> set (toLowerCase input). \<not> (is_ascii_letter c \<or> is_digit_char c \<or> c = CHR ''_'')"
    then have "\<forall>c \<in> set (toLowerCase input). \<not> is_word_char c"
      unfolding word_char_classes .
    then have "tokenize (toLowerCase input) = []"
      by (rule tokenize_no_word)
    then show "tokenize input = []"
      by (simp add: tokenize_alt toLowerCase_idem)
  qed
  have tokens: "\<forall>t \<in> set (tokenize input).
      t \<noteq> [] \<and> (\<forall>c \<in> set t. is_ascii_letter c \<or> is_digit_char c \<or> c = CHR ''_'')"
  proof
    fix t
    assume "t \<in> set (tokenize input)"
    then show "t \<noteq> [] \<and> (\<forall>c \<in> set t. is_ascii_letter c \<or> is_digit_char c \<or> c = CHR ''_'')"
      using tokenize_tokens [of t input] unfolding word_char_classes by simp
  qed
  have all: "concat (tokenize input) =
     filter (\<lambda>c. is_ascii_letter c \<or> is_digit_char c \<or> c = CHR ''_'') (toLowerCase input)"
    using concat_tokenize [of input] unfolding word_char_classes .
  show ?thesis
    by (intro conjI) (rule same empty punct lowered tokens all)+
qed

text \<open>
  Claim C5 as stated fails on a letter outside A to Z: in "cafe" with an acute accent the
  last letter is a letter, so the description keeps the word whole, and the code, whose
  class \<open>\w\<close> has no such letter, cuts it off.
\<close>

theorem accented_letter_counterexample:
  "tokenize cafe = [''caf''] \<and> tokenize_spec cafe = [cafe] \<and> tokenize cafe \<noteq> tokenize_spec cafe"
  by code_simp

theorem tokenize_witness:
  "list_all (\<lambda>c. \<not> is_letter_char c \<and> \<not> is_digit_char c \<and> c \<noteq> CHR ''_'') ''?! -- ...'' \<and>
   tokenize ''?! -- ...'' = [] \<and>
   tokenize ''Hand-Stand, 45 deg_front!'' = [''hand'', ''stand'', ''45'', ''deg_front''] \<and>
   tokenize_spec_ascii ''Hand-Stand, 45 deg_front!'' = [''hand'', ''stand'', ''45'', ''deg_front''] \<and>
   concat (tokenize ''Hand-Stand, 45 deg_front!'') = ''handstand45deg_front'' \<and>
   list_all (\<lambda>t. t \<noteq> [] \<and> list_all (\<lambda>c. is_ascii_letter c \<or> is_digit_char c \<or> c = CHR ''_'') t)
     (tokenize ''Hand-Stand, 45 deg_front!'') \<and>
   tokenize cafe = tokenize_spec_ascii cafe"
proof -
  have p: "list_all (\<lambda>c. \<not> is_letter_char c \<and> \<not> is_digit_char c \<and> c \<noteq> CHR ''_'') ''?! -- ...''"
    by code_simp
  have t: "tokenize ''Hand-Stand, 45 deg_front!'' = [''hand'', ''stand'', ''45'', ''deg_front'']"
    by code_simp
  have f: "filter (\<lambda>c. is_ascii_letter c \<or> is_digit_char c \<or> c = CHR ''_'')
             (toLowerCase ''Hand-Stand, 45 deg_front!'') = ''handstand45deg_front''"
    by code_simp
  note a = tokenize_meets_its_ascii_description [of "''?! -- ...''"]
  note b = tokenize_meets_its_ascii_description [of "''Hand-Stand, 45 deg_front!''"]
  note c = tokenize_meets_its_ascii_description [of cafe]
  from p have "\<forall>c \<in> set ''?! -- ...''. \<not> is_letter_char c \<and> \<not> is_digit_char c \<and> c \<noteq> CHR ''_''"
    unfolding list_all_iff .
  with a have 1: "tokenize ''?! -- ...'' = []"
    by blast
  from b t have 2: "tokenize_spec_ascii ''Hand-Stand, 45 deg_front!'' =
      [''hand'', ''stand'', ''45'', ''deg_front'']"
    by metis
  from b f have 3: "concat (tokenize ''Hand-Stand, 45 deg_front!'') = ''handstand45deg_front''"
    by metis
  from b have 4: "list_all (\<lambda>t. t \<noteq> [] \<and>
        list_all (\<lambda>c. is_ascii_letter c \<or> is_digit_char c \<or> c = CHR ''_'') t)
      (tokenize ''Hand-Stand, 45 deg_front!'')"
    unfolding list_all_iff by blast
  from c have 5: "tokenize cafe = tokenize_spec_ascii cafe"
    by blast
  from p 1 t 2 3 4 5 show ?thesis
    by blast
qed

section \<open>Pagination\<close>

subsection \<open>Decimal cursors\<close>

lemma of_char_digit_char: "d < 10 \<Longrightarrow> (of_char (digit_char d) :: nat) = 48 + d"
  by (simp add: digit_char_def)

lemma is_digit_digit_char: "d < 10 \<Longrightarrow> is_digit_char (digit_char d)"
  by (simp add: is_digit_char_def of_char_digit_char)

lemma digit_val_digit_char: "d < 10 \<Longrightarrow> digit_val (digit_char d) = d"
  by (simp add: digit_val_def of_char_digit_char)

lemma is_digit_not_space: "is_digit_char c \<Longrightarrow> \<not> is_space_char c"
  by (auto simp: is_digit_char_def is_space_char_def Let_def)

lemma is_digit_not_sign: "is_digit_char c \<Longrightarrow> c \<noteq> CHR ''-'' \<and> c \<noteq> CHR ''+''"
  by (auto simp: is_digit_char_def)

lemma string_of_nat_digits: "\<forall>c \<in> set (string_of_nat n). is_digit_char c"
proof (induction n rule: string_of_nat.induct)
  case (1 n)
  show ?case
  proof (cases "n < 10")
    case True
    then show ?thesis
      by (subst string_of_nat.simps) (simp add: is_digit_digit_char)
  next
    case False
    with 1 show ?thesis
      by (subst string_of_nat.simps) (auto simp: is_digit_digit_char)
  qed
qed

lemma string_of_nat_nonempty: "string_of_nat n \<noteq> []"
  by (subst string_of_nat.simps) simp

lemma string_of_nat_value:
  "foldl (\<lambda>a c. 10 * a + digit_val c) 0 (string_of_nat n) = n"
proof (induction n rule: string_of_nat.induct)
  case (1 n)
  show ?case
  proof (cases "n < 10")
    case True
    then show ?thesis
      by (subst string_of_nat.simps) (simp add: digit_val_digit_char)
  next
    case False
    with 1 show ?thesis
      by (subst string_of_nat.simps) (simp add: digit_val_digit_char)
  qed
qed

lemma parseInt_digits_then:
  assumes "ds \<noteq> []" and "\<forall>c \<in> set ds. is_digit_char c"
    and "rest = [] \<or> \<not> is_digit_char (hd rest)"
  shows "parseInt (ds @ rest) = Num (of_nat (foldl (\<lambda>a c. 10 * a + digit_val c) 0 ds))"
proof -
  from assms obtain c r where ds: "ds = c # r" by (cases ds) auto
  with assms have c: "is_digit_char c" by simp
  have 1: "dropWhile is_space_char (ds @ rest) = ds @ rest"
    using c ds by (simp add: is_digit_not_space)
  have "takeWhile is_digit_char rest = []"
    using assms(3) by (cases rest) auto
  then have 2: "takeWhile is_digit_char (ds @ rest) = ds"
    using assms(2) by (simp add: takeWhile_append2)
  show ?thesis
    unfolding parseInt_def 1 Let_def
    using is_digit_not_sign [OF c] 2 assms(1)
    by (simp add: ds)
qed

lemma parseInt_string_of_nat: "parseInt (string_of_nat n) = Num (of_nat n)"
  using parseInt_digits_then [of "string_of_nat n" "[]"]
  by (simp add: string_of_nat_nonempty string_of_nat_digits string_of_nat_value)

lemma truthy_string_of_nat: "truthy (Some (string_of_nat n))"
  by (simp add: truthy_def string_of_nat_nonempty)

lemma toString_of_nat: "toString (Num (of_nat k)) = string_of_nat k"
  by (simp add: unsigned_string_def)

lemma toInteger_of_int: "toIntegerOrInfinity (Num (of_int z)) = z"
  by simp

lemma slice_int:
  assumes "0 \<le> n"
  shows "slice xs (Num (of_int (int off))) (Num (of_int (int off + n))) = take (nat n) (drop off xs)"
proof (cases "off \<le> length xs")
  case True
  show ?thesis
  proof (cases "int off + n \<le> int (length xs)")
    case le: True
    then have "nat (int off + n - int off) = nat n" by simp
    with True le assms show ?thesis
      unfolding slice_def Let_def toInteger_of_int by simp
  next
    case gt: False
    then have "length xs - off \<le> nat n" by linarith
    moreover have "nat (int (length xs) - int off) = length xs - off" by linarith
    ultimately show ?thesis
      using True gt assms unfolding slice_def Let_def toInteger_of_int by simp
  qed
next
  case False
  then show ?thesis
    using assms unfolding slice_def Let_def toInteger_of_int by simp
qed

lemma start_index:
  assumes "cur = None \<and> off = 0 \<or> cur = Some (string_of_nat off)"
  shows "(if truthy cur then parseInt (the cur) else Num 0) = Num (of_int (int off))"
  using assms by (auto simp: truthy_def parseInt_string_of_nat string_of_nat_nonempty)

lemma end_index:
  assumes "0 < n"
  shows "js_add (Num (of_int (int off))) (Num (of_int n)) = Num (of_int (int off + n))"
    and "js_less (Num (of_int (int off + n))) (Num (of_nat (length S))) \<longleftrightarrow>
           \<not> int (length S) \<le> int off + n"
    and "toString (Num (of_int (int off + n))) = string_of_nat (off + nat n)"
proof -
  show "js_add (Num (of_int (int off))) (Num (of_int n)) = Num (of_int (int off + n))"
    by simp
  have "(of_int (int off + n) :: rat) < of_int (int (length S)) \<longleftrightarrow> int off + n < int (length S)"
    by (rule of_int_less_iff)
  then show "js_less (Num (of_int (int off + n))) (Num (of_nat (length S))) \<longleftrightarrow>
           \<not> int (length S) \<le> int off + n"
    by (simp add: not_le)
  have "(of_int (int off + n) :: rat) = of_nat (off + nat n)"
    using assms by simp
  then show "toString (Num (of_int (int off + n))) = string_of_nat (off + nat n)"
    by (simp only: toString_of_nat)
qed

lemma list_page_decimal:
  assumes "0 < n" and "cur = None \<and> off = 0 \<or> cur = Some (string_of_nat off)"
  shows "list_page S \<lparr>numItems = of_int n, cursor = cur\<rparr> =
           \<lparr>page = take (nat n) (drop off S),
            isDone = (int (length S) \<le> int off + n),
            continueCursor = (if int (length S) \<le> int off + n then None
                              else Some (string_of_nat (off + nat n)))\<rparr>"
proof -
  have n: "0 \<le> n"
    using assms(1) by simp
  show ?thesis
    unfolding list_page_def Let_def pagination_opts.simps start_index [OF assms(2)]
      end_index [OF assms(1)] slice_int [OF n]
    by simp
qed

lemma query_page_decimal:
  assumes "0 < n" and "cur = None \<and> off = 0 \<or> cur = Some (string_of_nat off)"
  shows "query_page S (of_int n) cur =
           \<lparr>results = take (nat n) (drop off S),
            cursor = (if int (length S) \<le> int off + n then None
                      else Some (string_of_nat (off + nat n))),
            isDone = (int (length S) \<le> int off + n)\<rparr>"
proof -
  have n: "0 \<le> n"
    using assms(1) by simp
  show ?thesis
    unfolding query_page_def Let_def start_index [OF assms(2)]
      end_index [OF assms(1)] slice_int [OF n]
    by simp
qed

lemma follow_offsets:
  assumes "0 < n"
    and step: "\<And>cur off. cur = None \<and> off = 0 \<or> cur = Some (string_of_nat off) \<Longrightarrow>
           fetch cur = (take (nat n) (drop off S), int (length S) \<le> int off + n,
                        if int (length S) \<le> int off + n then None
                        else Some (string_of_nat (off + nat n)))"
  shows "cur = None \<and> off = 0 \<or> cur = Some (string_of_nat off) \<Longrightarrow>
         length S - off < k \<Longrightarrow> follow_cursor k fetch cur = Some (drop off S)"
proof (induction k arbitrary: cur off)
  case 0
  then show ?case by simp
next
  case (Suc k)
  note f = step [OF Suc.prems(1)]
  show ?case
  proof (cases "int (length S) \<le> int off + n")
    case True
    then have "length S - off \<le> nat n" by linarith
    then show ?thesis
      using True by (simp add: f)
  next
    case False
    have "length S - (off + nat n) < k"
      using Suc.prems(2) False assms(1) by linarith
    then have "follow_cursor k fetch (Some (string_of_nat (off + nat n))) = Some (drop (off + nat n) S)"
      by (intro Suc.IH) simp_all
    moreover have "take (nat n) (drop off S) @ drop (off + nat n) S = drop off S"
      by (metis add.commute append_take_drop_id drop_drop)
    ultimately show ?thesis
      using False by (simp add: f)
  qed
qed

lemma follow_stuck:
  assumes "fetch None = ([], False, Some s)" and "fetch (Some s) = ([], False, Some s)"
  shows "follow_cursor k fetch None = None"
proof -
  have "follow_cursor j fetch (Some s) = None" for j
    by (induction j) (simp_all add: assms)
  then show ?thesis
    by (cases k) (simp_all add: assms)
qed

section \<open>The listing\<close>

lemma filter_option_case:
  "(case opt of Some v \<Rightarrow> filter (P v) xs | None \<Rightarrow> xs) =
     filter (\<lambda>x. case opt of None \<Rightarrow> True | Some v \<Rightarrow> P v x) xs"
  by (cases opt) simp_all

lemma tags_filter_case:
  "(case opt of
      Some ts \<Rightarrow> if length ts > 0 then filter (\<lambda>clip. list_ex (\<lambda>tag. tag \<in> set (tags clip)) ts) xs else xs
    | None \<Rightarrow> xs) =
   filter (\<lambda>clip. case opt of None \<Rightarrow> True | Some ts \<Rightarrow> ts = [] \<or> set (tags clip) \<inter> set ts \<noteq> {}) xs"
proof (cases opt)
  case None
  then show ?thesis by simp
next
  case (Some ts)
  then show ?thesis
    by (auto simp: list_ex_iff intro!: filter_cong)
qed

lemma order_desc_filter: "order_desc (filter P xs) = filter P (order_desc xs)"
  by (simp add: order_desc_def rev_filter)

lemma owner_sequence_set:
  "set (order_desc (by_user_and_created_at d u)) = {c \<in> set (clips d). clip.userId c = u}"
  by (auto simp: order_desc_def by_user_and_created_at_def)

lemma owner_sequence_desc:
  "sorted_wrt (\<lambda>a b. a \<ge> b) (map createdAt (order_desc (by_user_and_created_at d u)))"
proof -
  have "sorted (map createdAt (by_user_and_created_at d u))"
    by (simp add: by_user_and_created_at_def)
  then have "sorted_wrt (\<lambda>a b. b \<le> a) (rev (map createdAt (by_user_and_created_at d u)))"
    by (simp add: sorted_wrt_rev)
  then show ?thesis
    by (simp add: order_desc_def rev_map)
qed

lemma desc_filter:
  "sorted_wrt (\<lambda>a b. a \<ge> b) (map (f :: 'a \<Rightarrow> int) xs) \<Longrightarrow> sorted_wrt (\<lambda>a b. a \<ge> b) (map f (filter P xs))"
  by (induction xs) auto

lemma list_results_filter:
  "list_results c args =
     filter (passes_filters args) (order_desc (by_user_and_created_at (db c) (getCurrentUserId c)))"
  unfolding list_results_def Let_def filter_option_case tags_filter_case order_desc_filter
  by (auto simp: passes_filters_def intro!: filter_cong)

text \<open>
  Claim C2, as the handler has it. The sequence that \<open>list\<close> paginates is the caller's clips
  in descending order of \<open>createdAt\<close>, filtered, in that order, by the supplied fields: a clip
  of the store is in it exactly when the caller owns it and it passes every supplied filter,
  where a non-empty tag list asks for a common tag and an empty tag list asks nothing,
  \<open>angle\<close>, \<open>apparatus\<close>, \<open>favorite\<close> and \<open>sessionId\<close> ask for the stored value to be the supplied
  one, and the date range asks for \<open>start \<le> createdAt \<le> end\<close>. The sequence is descending in
  \<open>createdAt\<close>; with no filter it is the whole sequence of the caller's clips; no clip of
  another owner is in it.
\<close>

theorem list_results_are_the_owners_filtered_clips:
  "list_results c args =
     filter (passes_filters args) (order_desc (by_user_and_created_at (db c) (getCurrentUserId c))) \<and>
   (clip \<in> set (list_results c args) \<longleftrightarrow>
      clip \<in> set (clips (db c)) \<and> clip.userId clip = getCurrentUserId c \<and> passes_filters args clip) \<and>
   sorted_wrt (\<lambda>a b. a \<ge> b) (map createdAt (list_results c args)) \<and>
   (arg_tags args = None \<and> arg_angle args = None \<and> arg_apparatus args = None \<and>
    arg_favorite args = None \<and> arg_sessionId args = None \<and> dateRange args = None \<longrightarrow>
      list_results c args = order_desc (by_user_and_created_at (db c) (getCurrentUserId c))) \<and>
   (\<forall>other \<in> set (list_results c args). clip.userId other = getCurrentUserId c)"
proof -
  note f = list_results_filter [of c args]
  have m: "clip \<in> set (list_results c args) \<longleftrightarrow>
      clip \<in> set (clips (db c)) \<and> clip.userId clip = getCurrentUserId c \<and> passes_filters args clip" for clip
    by (auto simp: f owner_sequence_set)
  have s: "sorted_wrt (\<lambda>a b. a \<ge> b) (map createdAt (list_results c args))"
    unfolding f by (rule desc_filter) (rule owner_sequence_desc)
  have n: "list_results c args = order_desc (by_user_and_created_at (db c) (getCurrentUserId c))"
    if "arg_tags args = None \<and> arg_angle args = None \<and> arg_apparatus args = None \<and>
    arg_favorite args = None \<and> arg_sessionId args = None \<and> dateRange args = None"
    using that by (simp add: f passes_filters_def)
  show ?thesis
    using f m s n by blast
qed

text \<open>
  Claim C2 as stated fails for a supplied empty tag list: no clip has a tag in common with
  it, and the handler returns the clip all the same.
\<close>

theorem empty_tag_list_counterexample:
  "\<not> (clipB \<in> set (list_results alice (no_filters\<lparr>arg_tags := Some []\<rparr>)) \<longleftrightarrow>
        clip.userId clipB = getCurrentUserId alice \<and>
        satisfies_as_specified (no_filters\<lparr>arg_tags := Some []\<rparr>) clipB)"
  by code_simp

theorem list_results_witness:
  "clipB \<in> set (clips (db alice)) \<and> clip.userId clipB = getCurrentUserId alice \<and>
   passes_filters (no_filters\<lparr>arg_tags := Some [''press'', ''planche''], arg_favorite := Some False,
       dateRange := Some \<lparr>range_start = 100, range_end = 200\<rparr>\<rparr>) clipB \<and>
   clipB \<in> set (list_results alice (no_filters\<lparr>arg_tags := Some [''press'', ''planche''],
       arg_favorite := Some False, dateRange := Some \<lparr>range_start = 100, range_end = 200\<rparr>\<rparr>)) \<and>
   list_results alice (no_filters\<lparr>arg_tags := Some [''press'', ''planche''],
       arg_favorite := Some False, dateRange := Some \<lparr>range_start = 100, range_end = 200\<rparr>\<rparr>) = [clipB] \<and>
   list_results alice no_filters = [clipD, clipB, clipA] \<and>
   clipC \<in> set (clips (db alice)) \<and> clipC \<notin> set (list_results alice no_filters)"
proof -
  let ?args = "no_filters\<lparr>arg_tags := Some [''press'', ''planche''], arg_favorite := Some False,
       dateRange := Some \<lparr>range_start = 100, range_end = 200\<rparr>\<rparr>"
  have h: "clipB \<in> set (clips (db alice))" "clip.userId clipB = getCurrentUserId alice"
    "passes_filters ?args clipB" "clipC \<in> set (clips (db alice))"
    "clip.userId clipC \<noteq> getCurrentUserId alice"
    by code_simp+
  have all: "order_desc (by_user_and_created_at (db alice) (getCurrentUserId alice)) = [clipD, clipB, clipA]"
    by code_simp
  have one: "filter (passes_filters ?args) [clipD, clipB, clipA] = [clipB]"
    by code_simp
  have none: "arg_tags no_filters = None \<and> arg_angle no_filters = None \<and>
    arg_apparatus no_filters = None \<and> arg_favorite no_filters = None \<and>
    arg_sessionId no_filters = None \<and> dateRange no_filters = None"
    by (simp add: no_filters_def)
  note a = list_results_are_the_owners_filtered_clips [of alice ?args clipB]
  note b = list_results_are_the_owners_filtered_clips [of alice no_filters clipC]
  from a h have 1: "clipB \<in> set (list_results alice ?args)" by blast
  from a all one have 2: "list_results alice ?args = [clipB]" by metis
  from b none all have 3: "list_results alice no_filters = [clipD, clipB, clipA]" by metis
  from b h have 4: "clipC \<notin> set (list_results alice no_filters)" by blast
  from h 1 2 3 4 show ?thesis by blast
qed

text \<open>
  Claim C8, as the handler has it. The \<open>favorite\<close> filter compares the stored value with the
  supplied one: a clip with no stored \<open>favorite\<close> passes neither \<open>favorite: false\<close> nor
  \<open>favorite: true\<close>, and the listing with the one filter \<open>favorite: false\<close> holds exactly the
  caller's clips whose stored value is \<open>false\<close>. The default is written at creation:
  \<open>finalizeUpload\<close> stores \<open>favorite = false\<close> in the clip it inserts.
\<close>

theorem favorite_filter_compares_stored_value:
  "(favorite clip = None \<and> arg_favorite args = Some b \<longrightarrow> clip \<notin> set (list_results c args)) \<and>
   (arg_tags args = None \<and> arg_angle args = None \<and> arg_apparatus args = None \<and>
    arg_favorite args = Some False \<and> arg_sessionId args = None \<and> dateRange args = None \<longrightarrow>
      (clip \<in> set (list_results c args) \<longleftrightarrow>
         clip \<in> set (clips (db c)) \<and> clip.userId clip = getCurrentUserId c \<and>
         favorite clip = Some False)) \<and>
   (fst (finalizeUpload c fargs) = Inr i \<longrightarrow>
      (\<exists>new. clips (snd (finalizeUpload c fargs)) = clips (db c) @ [new] \<and>
             favorite new = Some False))"
proof -
  have m: "clip \<in> set (list_results c args) \<longleftrightarrow>
      clip \<in> set (clips (db c)) \<and> clip.userId clip = getCurrentUserId c \<and> passes_filters args clip"
    by (auto simp: list_results_filter owner_sequence_set)
  have 1: "clip \<notin> set (list_results c args)" if "favorite clip = None \<and> arg_favorite args = Some b"
    using that by (simp add: m passes_filters_def)
  have 2: "clip \<in> set (list_results c args) \<longleftrightarrow>
         clip \<in> set (clips (db c)) \<and> clip.userId clip = getCurrentUserId c \<and>
         favorite clip = Some False"
    if "arg_tags args = None \<and> arg_angle args = None \<and> arg_apparatus args = None \<and>
    arg_favorite args = Some False \<and> arg_sessionId args = None \<and> dateRange args = None"
    using that by (simp add: m passes_filters_def)
  have 3: "\<exists>new. clips (snd (finalizeUpload c fargs)) = clips (db c) @ [new] \<and>
             favorite new = Some False" if "fst (finalizeUpload c fargs) = Inr i"
    using that by (auto simp: finalizeUpload_def insert_clip_def Let_def split: if_splits)
  show ?thesis
    using 1 2 3 by blast
qed

text \<open>
  Claim C8 as stated fails: a clip of the caller with no stored \<open>favorite\<close> is not in the
  listing for \<open>favorite: false\<close>.
\<close>

theorem absent_favorite_counterexample:
  "favorite clipD = None \<and> clipD \<in> set (clips (db alice)) \<and>
   clip.userId clipD = getCurrentUserId alice \<and>
   clipD \<notin> set (list_results alice (no_filters\<lparr>arg_favorite := Some False\<rparr>))"
  by code_simp

theorem favorite_filter_witness:
  "favorite clipD = None \<and> arg_favorite (no_filters\<lparr>arg_favorite := Some False\<rparr>) = Some False \<and>
   clipD \<notin> set (list_results alice (no_filters\<lparr>arg_favorite := Some False\<rparr>)) \<and>
   clipB \<in> set (clips (db alice)) \<and> clip.userId clipB = getCurrentUserId alice \<and>
   favorite clipB = Some False \<and>
   clipB \<in> set (list_results alice (no_filters\<lparr>arg_favorite := Some False\<rparr>)) \<and>
   fst (finalizeUpload alice \<lparr>arg_objectKey = ''clips/alice/300-r4nd0m.mp4'', arg_bytes = 1000,
          arg_durationMs = None, arg_width = None, arg_height = None\<rparr>) = Inr 20 \<and>
   map favorite (clips (snd (finalizeUpload alice \<lparr>arg_objectKey = ''clips/alice/300-r4nd0m.mp4'',
          arg_bytes = 1000, arg_durationMs = None, arg_width = None, arg_height = None\<rparr>)))
     = map favorite (clips (db alice)) @ [Some False]"
proof -
  let ?args = "no_filters\<lparr>arg_favorite := Some False\<rparr>"
  let ?f = "\<lparr>arg_objectKey = ''clips/alice/300-r4nd0m.mp4'', arg_bytes = 1000,
          arg_durationMs = None, arg_width = None, arg_height = None\<rparr>"
  have h: "favorite clipD = None" "arg_favorite ?args = Some False"
    "clipB \<in> set (clips (db alice))" "clip.userId clipB = getCurrentUserId alice"
    "favorite clipB = Some False" "fst (finalizeUpload alice ?f) = Inr 20"
    by code_simp+
  have only: "arg_tags ?args = None \<and> arg_angle ?args = None \<and> arg_apparatus ?args = None \<and>
    arg_favorite ?args = Some False \<and> arg_sessionId ?args = None \<and> dateRange ?args = None"
    by (simp add: no_filters_def)
  note a = favorite_filter_compares_stored_value [of clipD ?args False alice ?f 20]
  note b = favorite_filter_compares_stored_value [of clipB ?args False alice ?f 20]
  from a h have 1: "clipD \<notin> set (list_results alice ?args)" by blast
  from b h only have 2: "clipB \<in> set (list_results alice ?args)" by blast
  from a h obtain new where "clips (snd (finalizeUpload alice ?f)) = clips (db alice) @ [new]"
    "favorite new = Some False" by blast
  then have 3: "map favorite (clips (snd (finalizeUpload alice ?f))) =
      map favorite (clips (db alice)) @ [Some False]" by simp
  from h 1 2 3 show ?thesis by blast
qed

section \<open>Search\<close>

lemma starts_with_iff: "starts_with s t \<longleftrightarrow> (\<exists>ss. s = t @ ss)"
  by (induction s t rule: starts_with.induct) auto

lemma js_includes_iff: "js_includes s t \<longleftrightarrow> is_substring t s"
proof (induction s)
  case Nil
  show ?case by (auto simp: is_substring_def)
next
  case (Cons c s)
  have "is_substring t (c # s) \<longleftrightarrow> (\<exists>ss. c # s = t @ ss) \<or> is_substring t s"
  proof
    assume "is_substring t (c # s)"
    then obtain ps ss where e: "c # s = ps @ t @ ss" by (auto simp: is_substring_def)
    show "(\<exists>ss. c # s = t @ ss) \<or> is_substring t s"
    proof (cases ps)
      case Nil
      with e show ?thesis by auto
    next
      case (Cons p ps')
      with e have "s = ps' @ t @ ss" by simp
      then show ?thesis by (auto simp: is_substring_def)
    qed
  next
    assume "(\<exists>ss. c # s = t @ ss) \<or> is_substring t s"
    then show "is_substring t (c # s)"
    proof
      assume "\<exists>ss. c # s = t @ ss"
      then obtain ss where "c # s = [] @ t @ ss" by auto
      then show ?thesis unfolding is_substring_def by blast
    next
      assume "is_substring t s"
      then obtain ps ss where "s = ps @ t @ ss" by (auto simp: is_substring_def)
      then have "c # s = (c # ps) @ t @ ss" by simp
      then show ?thesis unfolding is_substring_def by blast
    qed
  qed
  with Cons show ?case by (simp add: starts_with_iff)
qed

lemma split_ws_hd_tl: "split_ws s = hd (split_ws s) # tl (split_ws s)"
  using split_ws_nonempty [of s] by simp

lemma split_ws_leading_space: "starts_with_space s \<Longrightarrow> hd (split_ws s) = []"
proof (induction s)
  case Nil
  then show ?case by simp
next
  case (Cons c cs)
  then show ?case by (cases cs) auto
qed

lemma split_ws_noncons:
  "\<not> is_space_char x \<Longrightarrow> split_ws (x # s) = (x # hd (split_ws s)) # tl (split_ws s)"
  using split_ws_nonempty [of s] by (simp split: list.splits)

lemma split_ws_append_space:
  assumes "is_space_char c"
  shows "hd (split_ws (a @ c # b)) = hd (split_ws a) \<and>
         filter (\<lambda>t. t \<noteq> []) (tl (split_ws (a @ c # b))) =
           filter (\<lambda>t. t \<noteq> []) (tl (split_ws a)) @ nonempty_pieces b"
proof (induction a)
  case Nil
  have h: "hd (split_ws (c # b)) = []"
    by (rule split_ws_leading_space) (simp add: assms)
  have "nonempty_pieces (c # b) = nonempty_pieces b"
    using assms by simp
  moreover have "nonempty_pieces (c # b) = filter (\<lambda>t. t \<noteq> []) (tl (split_ws (c # b)))"
    using h by (subst split_ws_hd_tl) simp
  ultimately show ?case using h by simp
next
  case (Cons x a)
  show ?case
  proof (cases "is_space_char x")
    case False
    with Cons show ?thesis by (simp add: split_ws_noncons del: split_ws.simps)
  next
    case True
    have full: "nonempty_pieces (a @ c # b) = nonempty_pieces a @ nonempty_pieces b"
    proof -
      have "nonempty_pieces (a @ c # b) =
            filter (\<lambda>t. t \<noteq> []) (hd (split_ws (a @ c # b)) # tl (split_ws (a @ c # b)))"
        using split_ws_hd_tl [of "a @ c # b"] by simp
      also have "\<dots> = filter (\<lambda>t. t \<noteq> []) (hd (split_ws a) # tl (split_ws a)) @ nonempty_pieces b"
        using Cons by simp
      also have "\<dots> = nonempty_pieces a @ nonempty_pieces b"
        using split_ws_hd_tl [of a] by simp
      finally show ?thesis .
    qed
    show ?thesis
    proof (cases a)
      case Nil
      have h: "hd (split_ws (c # b)) = []"
        by (rule split_ws_leading_space) (simp add: assms)
      have "nonempty_pieces (c # b) = filter (\<lambda>t. t \<noteq> []) (tl (split_ws (c # b)))"
        using h by (subst split_ws_hd_tl) simp
      moreover have "nonempty_pieces (c # b) = nonempty_pieces b"
        using assms by simp
      ultimately show ?thesis
        using True Nil assms h by simp
    next
      case (Cons y a')
      show ?thesis
      proof (cases "is_space_char y")
        case sp: True
        with True Cons \<open>hd (split_ws (a @ c # b)) = hd (split_ws a) \<and> _\<close>
        show ?thesis by simp
      next
        case nsp: False
        with True Cons full show ?thesis by simp
      qed
    qed
  qed
qed

lemma nonempty_pieces_append_space:
  assumes "is_space_char c"
  shows "nonempty_pieces (a @ c # b) = nonempty_pieces a @ nonempty_pieces b"
proof -
  note r = split_ws_append_space [OF assms, of a b]
  have "nonempty_pieces (a @ c # b) =
        filter (\<lambda>t. t \<noteq> []) (hd (split_ws (a @ c # b)) # tl (split_ws (a @ c # b)))"
    using split_ws_hd_tl [of "a @ c # b"] by simp
  also have "\<dots> = filter (\<lambda>t. t \<noteq> []) (hd (split_ws a) # tl (split_ws a)) @ nonempty_pieces b"
    using r by simp
  also have "\<dots> = nonempty_pieces a @ nonempty_pieces b"
    using split_ws_hd_tl [of a] by simp
  finally show ?thesis .
qed

lemma tokenize_append:
  assumes "\<not> is_word_char c"
  shows "tokenize (a @ c # b) = tokenize a @ tokenize b"
proof -
  let ?r = "\<lambda>c. if \<not> is_word_char c \<and> \<not> is_space_char c then CHR '' '' else c"
  have "is_space_char (?r (lower_char c))"
    using assms by (simp add: lower_char_word space_char_is_space)
  then show ?thesis
    by (simp add: tokenize_alt toLowerCase_def replace_punct_def nonempty_pieces_append_space)
qed

lemma tokenize_lower: "tokenize (toLowerCase s) = tokenize s"
  by (simp add: tokenize_alt toLowerCase_idem)

lemma tokenize_join: "tokenize (join '' '' xs) = concat (map tokenize xs)"
proof (induction "'' ''" xs rule: join.induct)
  case 1
  show ?case by (simp add: tokenize_no_word)
next
  case (2 x)
  show ?case by simp
next
  case (3 x y ys)
  have "\<not> is_word_char CHR '' ''"
    by (simp add: is_word_char_def)
  then have "tokenize (x @ CHR '' '' # join '' '' (y # ys)) = tokenize x @ tokenize (join '' '' (y # ys))"
    by (rule tokenize_append)
  with 3 show ?case by simp
qed

lemma trim_empty:
  assumes "trim q = []"
  shows "tokenize q = []"
proof -
  from assms have a: "\<forall>x \<in> set (dropWhile is_space_char q). is_space_char x"
    by (simp add: trim_def dropWhile_eq_Nil_conv)
  have "dropWhile is_space_char q = []"
  proof (rule ccontr)
    assume n: "dropWhile is_space_char q \<noteq> []"
    then have "\<not> is_space_char (hd (dropWhile is_space_char q))"
      by (rule hd_dropWhile)
    with a n show False by simp
  qed
  then have "\<forall>x \<in> set q. is_space_char x"
    by (simp add: dropWhile_eq_Nil_conv)
  then have "\<forall>x \<in> set q. \<not> is_word_char x"
    using word_not_space by blast
  then show ?thesis by (rule tokenize_no_word)
qed


lemma search_tokens:
  "tokenize (toLowerCase (join '' '' (ts @ [k, a, b]))) =
     concat (map tokenize ts) @ tokenize k @ tokenize a @ tokenize b"
  by (simp add: tokenize_lower tokenize_join)

lemma matchesQuery_iff:
  "matchesQuery clip queryTokens \<longleftrightarrow>
     (\<forall>t \<in> set queryTokens.
        \<exists>s \<in> set (tokenize (toLowerCase (join '' ''
                 (tags clip @
                  [objectKey clip,
                   case angle clip of Some a \<Rightarrow> angle_string a | None \<Rightarrow> [],
                   case apparatus clip of Some a \<Rightarrow> apparatus_string a | None \<Rightarrow> []])))).
          is_substring t s \<or> is_substring s t)"
  unfolding matchesQuery_def Let_def list_all_iff list_ex_iff js_includes_iff ..

lemma angle_tokens_unrelated:
  "\<forall>s \<in> set (tokenize (case x of Some a \<Rightarrow> angle_string a | None \<Rightarrow> [])).
     \<not> js_includes s ''handstand'' \<and> \<not> js_includes ''handstand'' s"
proof -
  have "\<forall>s \<in> set (tokenize []). \<not> js_includes s ''handstand'' \<and> \<not> js_includes ''handstand'' s"
    "\<forall>s \<in> set (tokenize (angle_string Front)). \<not> js_includes s ''handstand'' \<and> \<not> js_includes ''handstand'' s"
    "\<forall>s \<in> set (tokenize (angle_string Side)). \<not> js_includes s ''handstand'' \<and> \<not> js_includes ''handstand'' s"
    "\<forall>s \<in> set (tokenize (angle_string Angle45)). \<not> js_includes s ''handstand'' \<and> \<not> js_includes ''handstand'' s"
    by code_simp+
  then show ?thesis
    by (cases x; cases "the x") simp_all
qed

lemma apparatus_tokens_unrelated:
  "\<forall>s \<in> set (tokenize (case x of Some a \<Rightarrow> apparatus_string a | None \<Rightarrow> [])).
     \<not> js_includes s ''handstand'' \<and> \<not> js_includes ''handstand'' s"
proof -
  have "\<forall>s \<in> set (tokenize []). \<not> js_includes s ''handstand'' \<and> \<not> js_includes ''handstand'' s"
    "\<forall>s \<in> set (tokenize (apparatus_string Floor)). \<not> js_includes s ''handstand'' \<and> \<not> js_includes ''handstand'' s"
    "\<forall>s \<in> set (tokenize (apparatus_string Rings)). \<not> js_includes s ''handstand'' \<and> \<not> js_includes ''handstand'' s"
    "\<forall>s \<in> set (tokenize (apparatus_string Bar)). \<not> js_includes s ''handstand'' \<and> \<not> js_includes ''handstand'' s"
    "\<forall>s \<in> set (tokenize (apparatus_string Parallettes)). \<not> js_includes s ''handstand'' \<and> \<not> js_includes ''handstand'' s"
    by code_simp+
  then show ?thesis
    by (cases x; cases "the x") simp_all
qed

lemma handstand_examples:
  assumes "tags clip = [''handstand'']"
  shows "matchesQuery clip (tokenize ''hand'') \<and> matchesQuery clip (tokenize ''handstands'')"
proof -
  let ?toks = "tokenize (toLowerCase (join '' ''
                 (tags clip @
                  [objectKey clip,
                   case angle clip of Some a \<Rightarrow> angle_string a | None \<Rightarrow> [],
                   case apparatus clip of Some a \<Rightarrow> apparatus_string a | None \<Rightarrow> []])))"
  have q: "tokenize ''hand'' = [''hand'']" "tokenize ''handstands'' = [''handstands'']"
    by code_simp+
  have t: "tokenize ''handstand'' = [''handstand'']"
    by code_simp
  have i: "is_substring ''hand'' ''handstand''" "is_substring ''handstand'' ''handstands''"
    unfolding js_includes_iff [symmetric] by code_simp+
  have mem: "''handstand'' \<in> set ?toks"
    unfolding assms search_tokens by (simp add: t)
  have "\<exists>s \<in> set ?toks. is_substring ''hand'' s \<or> is_substring s ''hand''"
    using mem i(1) by blast
  moreover have "\<exists>s \<in> set ?toks. is_substring ''handstands'' s \<or> is_substring s ''handstands''"
    using mem i(2) by blast
  ultimately show ?thesis
    unfolding matchesQuery_iff q by simp
qed

lemma floor_example:
  assumes "tags clip = [''floor'']"
  shows "matchesQuery clip (tokenize ''handstand'') \<longleftrightarrow>
           (\<exists>s \<in> set (tokenize (objectKey clip)).
              is_substring ''handstand'' s \<or> is_substring s ''handstand'')"
proof -
  let ?a = "case angle clip of Some a \<Rightarrow> angle_string a | None \<Rightarrow> []"
  let ?b = "case apparatus clip of Some a \<Rightarrow> apparatus_string a | None \<Rightarrow> []"
  let ?toks = "tokenize (toLowerCase (join '' '' (tags clip @ [objectKey clip, ?a, ?b])))"
  have q: "tokenize ''handstand'' = [''handstand'']"
    by code_simp
  have t: "tokenize ''floor'' = [''floor'']"
    by code_simp
  have f: "\<not> is_substring ''handstand'' ''floor''" "\<not> is_substring ''floor'' ''handstand''"
    unfolding js_includes_iff [symmetric] by code_simp+
  have toks: "set ?toks = {''floor''} \<union> set (tokenize (objectKey clip)) \<union>
                set (tokenize ?a) \<union> set (tokenize ?b)"
    unfolding assms search_tokens by (auto simp: t)
  have rel: "matchesQuery clip (tokenize ''handstand'') \<longleftrightarrow>
               (\<exists>s \<in> set ?toks. is_substring ''handstand'' s \<or> is_substring s ''handstand'')"
    unfolding matchesQuery_iff q by simp
  note ua = angle_tokens_unrelated [of "angle clip", unfolded js_includes_iff]
  note ub = apparatus_tokens_unrelated [of "apparatus clip", unfolded js_includes_iff]
  show ?thesis
    unfolding rel toks using f ua ub by blast
qed

lemma search_query_nonempty:
  assumes "tokenize (arg_q args) \<noteq> []"
  shows "search_query c args =
           query_page (matchingClips c (tokenize (arg_q args)))
             (case arg_limit args of None \<Rightarrow> 20 | Some l \<Rightarrow> if l = 0 then 20 else l)
             (arg_cursor args)"
proof -
  from assms have "trim (arg_q args) \<noteq> []"
    using trim_empty by blast
  with assms show ?thesis
    by (simp add: search_query_def Let_def)
qed

text \<open>
  Claim C3, as the handler has it. For a query text with at least one token, \<open>query\<close>
  paginates \<open>matchingClips\<close>, and a clip is in that sequence exactly when it is a clip of the
  caller and every token of the query has a token \<open>s\<close> of the clip's search text (the
  lower-cased, space-joined tags, object key, angle or the empty string, apparatus or the
  empty string) such that one of the two contains the other. A clip tagged
  \<open>["handstand"]\<close> matches the queries "hand" and "handstands". A clip tagged \<open>["floor"]\<close>
  matches the query "handstand" exactly when a token of its object key contains
  "handstand" or is contained in it; otherwise it does not match.
\<close>

theorem search_matches_by_token_containment:
  "(tokenize (arg_q args) \<noteq> [] \<longrightarrow>
      search_query c args =
        query_page (matchingClips c (tokenize (arg_q args)))
          (case arg_limit args of None \<Rightarrow> 20 | Some l \<Rightarrow> if l = 0 then 20 else l)
          (arg_cursor args)) \<and>
   (clip \<in> set (matchingClips c (tokenize q)) \<longleftrightarrow>
      clip \<in> set (clips (db c)) \<and> clip.userId clip = getCurrentUserId c \<and>
      (\<forall>t \<in> set (tokenize q).
         \<exists>s \<in> set (tokenize (toLowerCase (join '' ''
                  (tags clip @
                   [objectKey clip,
                    case angle clip of Some a \<Rightarrow> angle_string a | None \<Rightarrow> [],
                    case apparatus clip of Some a \<Rightarrow> apparatus_string a | None \<Rightarrow> []])))).
           is_substring t s \<or> is_substring s t)) \<and>
   (tags clip = [''handstand''] \<longrightarrow>
      matchesQuery clip (tokenize ''hand'') \<and> matchesQuery clip (tokenize ''handstands'')) \<and>
   (tags clip = [''floor''] \<longrightarrow>
      (matchesQuery clip (tokenize ''handstand'') \<longleftrightarrow>
         (\<exists>s \<in> set (tokenize (objectKey clip)).
            is_substring ''handstand'' s \<or> is_substring s ''handstand'')))"
proof -
  have m: "clip \<in> set (matchingClips c (tokenize q)) \<longleftrightarrow>
      clip \<in> set (clips (db c)) \<and> clip.userId clip = getCurrentUserId c \<and>
      matchesQuery clip (tokenize q)"
    by (auto simp: matchingClips_def Let_def owner_sequence_set)
  show ?thesis
    unfolding m matchesQuery_iff [of clip "tokenize q"]
    using search_query_nonempty [of args c] handstand_examples [of clip] floor_example [of clip]
    by blast
qed

text \<open>
  Claim C3 as stated fails in its last example: the object key is part of the search text,
  and a clip tagged \<open>["floor"]\<close> whose key is \<open>clips/alice/hand.mp4\<close> matches the query
  "handstand" and is returned.
\<close>

theorem floor_clip_matches_handstand_counterexample:
  "tags clipD = [''floor''] \<and> matchesQuery clipD (tokenize ''handstand'') \<and>
   results (search_query alice \<lparr>arg_q = ''handstand'', arg_limit = None, arg_cursor = None\<rparr>)
     = [clipD, clipA]"
  by code_simp

theorem search_matches_witness:
  "tokenize (arg_q \<lparr>arg_q = ''hand'', arg_limit = Some 10, arg_cursor = None\<rparr>) \<noteq> [] \<and>
   search_query alice \<lparr>arg_q = ''hand'', arg_limit = Some 10, arg_cursor = None\<rparr> =
     query_page (matchingClips alice (tokenize ''hand'')) 10 None \<and>
   clipA \<in> set (matchingClips alice (tokenize ''hand'')) \<and>
   clip.userId clipA = getCurrentUserId alice \<and>
   tags clipC = [''handstand''] \<and>
   matchesQuery clipC (tokenize ''hand'') \<and> matchesQuery clipC (tokenize ''handstands'') \<and>
   tags clipE = [''floor''] \<and> \<not> matchesQuery clipE (tokenize ''handstand'') \<and>
   \<not> (\<exists>s \<in> set (tokenize (objectKey clipE)).
         is_substring ''handstand'' s \<or> is_substring s ''handstand'')"
proof -
  let ?args = "\<lparr>arg_q = ''hand'', arg_limit = Some 10, arg_cursor = None\<rparr>"
  have q: "tokenize (arg_q ?args) \<noteq> []"
    by code_simp
  have sel: "arg_q ?args = ''hand''" "arg_cursor ?args = None"
    "(case arg_limit ?args of None \<Rightarrow> 20 | Some l \<Rightarrow> if l = 0 then 20 else l) = 10"
    by simp_all
  have a: "clipA \<in> set (matchingClips alice (tokenize ''hand''))"
    by code_simp
  have c: "tags clipC = [''handstand'']" and e: "tags clipE = [''floor'']"
    by (simp_all add: clipC_def clipE_def)
  have n: "\<not> matchesQuery clipE (tokenize ''handstand'')"
    by code_simp
  note t1 = search_matches_by_token_containment [of ?args alice clipA "''hand''", unfolded sel]
  note t2 = search_matches_by_token_containment [of ?args alice clipC "''hand''"]
  note t3 = search_matches_by_token_containment [of ?args alice clipE "''hand''"]
  from t1 q have 1: "search_query alice ?args =
      query_page (matchingClips alice (tokenize ''hand'')) 10 None"
    by (simp add: sel)
  from t1 a have 2: "clip.userId clipA = getCurrentUserId alice"
    by blast
  from t2 c have 3: "matchesQuery clipC (tokenize ''hand'') \<and> matchesQuery clipC (tokenize ''handstands'')"
    by blast
  from t3 e n have 4: "\<not> (\<exists>s \<in> set (tokenize (objectKey clipE)).
         is_substring ''handstand'' s \<or> is_substring s ''handstand'')"
    by blast
  from q 1 a 2 c 3 e n 4 show ?thesis
    by blast
qed

section \<open>Pagination of the two handlers\<close>

lemma list_results_paginationOpts:
  "list_results c (args\<lparr>paginationOpts := p\<rparr>) = list_results c args"
  by (simp add: list_results_def)

lemma clips_list_page:
  "clips_list c (args\<lparr>paginationOpts := p\<rparr>) = list_page (list_results c args) p"
  by (simp add: clips_list_def list_results_paginationOpts)

lemma search_query_page:
  assumes "tokenize q \<noteq> []" and "l \<noteq> 0"
  shows "search_query c \<lparr>arg_q = q, arg_limit = Some l, arg_cursor = cur\<rparr> =
           query_page (matchingClips c (tokenize q)) l cur"
  using search_query_nonempty [of "\<lparr>arg_q = q, arg_limit = Some l, arg_cursor = cur\<rparr>" c] assms
  by simp

lemma search_query_default_limit:
  "search_query c \<lparr>arg_q = q, arg_limit = None, arg_cursor = cur\<rparr> =
   search_query c \<lparr>arg_q = q, arg_limit = Some 20, arg_cursor = cur\<rparr>"
  by (simp add: search_query_def Let_def)

text \<open>
  Claim C4, as the handlers have it. Let the page size \<open>n\<close> be a whole number, \<open>n > 0\<close>, and
  let the cursor be absent (offset 0) or the decimal string of the offset \<open>off\<close>. Then
  \<open>list\<close>, over its filtered sequence \<open>S\<close>, and \<open>query\<close>, over its matching sequence \<open>S\<close> (for
  a query text with a token; an absent limit is 20), return the page \<open>S[off : off + n]\<close>,
  report done exactly when \<open>off + n \<ge> length S\<close>, and hand back no cursor when done and the
  decimal string of \<open>off + n\<close> otherwise; the same holds of the pagination step of each
  handler on any sequence \<open>S\<close>. A client that calls a handler on the same store with no
  cursor and then follows the cursors finishes within \<open>length S + 1\<close> calls, and the
  concatenation of its pages is \<open>S\<close>: nothing twice, nothing left out.
\<close>

theorem pagination_slices_and_exhausts:
  assumes "0 < n" and "cur = None \<and> off = 0 \<or> cur = Some (string_of_nat off)"
  shows "clips_list c (args\<lparr>paginationOpts := \<lparr>numItems = of_int n, cursor = cur\<rparr>\<rparr>) =
           \<lparr>page = take (nat n) (drop off (list_results c args)),
            isDone = (int (length (list_results c args)) \<le> int off + n),
            continueCursor = (if int (length (list_results c args)) \<le> int off + n then None
                              else Some (string_of_nat (off + nat n)))\<rparr> \<and>
         (tokenize q \<noteq> [] \<longrightarrow>
            search_query c \<lparr>arg_q = q, arg_limit = Some (of_int n), arg_cursor = cur\<rparr> =
              \<lparr>results = take (nat n) (drop off (matchingClips c (tokenize q))),
               cursor = (if int (length (matchingClips c (tokenize q))) \<le> int off + n then None
                         else Some (string_of_nat (off + nat n))),
               isDone = (int (length (matchingClips c (tokenize q))) \<le> int off + n)\<rparr>) \<and>
         search_query c \<lparr>arg_q = q, arg_limit = None, arg_cursor = cur\<rparr> =
           search_query c \<lparr>arg_q = q, arg_limit = Some 20, arg_cursor = cur\<rparr> \<and>
         follow_cursor (Suc (length (list_results c args))) (clips_list_fetch c args (of_int n)) None =
           Some (list_results c args) \<and>
         (tokenize q \<noteq> [] \<longrightarrow>
            follow_cursor (Suc (length (matchingClips c (tokenize q))))
              (search_query_fetch c q (Some (of_int n))) None =
              Some (matchingClips c (tokenize q))) \<and>
         list_page S \<lparr>numItems = of_int n, cursor = cur\<rparr> =
           \<lparr>page = take (nat n) (drop off S),
            isDone = (int (length S) \<le> int off + n),
            continueCursor = (if int (length S) \<le> int off + n then None
                              else Some (string_of_nat (off + nat n)))\<rparr> \<and>
         query_page S (of_int n) cur =
           \<lparr>results = take (nat n) (drop off S),
            cursor = (if int (length S) \<le> int off + n then None
                      else Some (string_of_nat (off + nat n))),
            isDone = (int (length S) \<le> int off + n)\<rparr>"
proof -
  have nz: "(of_int n :: rat) \<noteq> 0"
    using assms(1) by simp
  have l: "clips_list c (args\<lparr>paginationOpts := \<lparr>numItems = of_int n, cursor = cur\<rparr>\<rparr>) =
           \<lparr>page = take (nat n) (drop off (list_results c args)),
            isDone = (int (length (list_results c args)) \<le> int off + n),
            continueCursor = (if int (length (list_results c args)) \<le> int off + n then None
                              else Some (string_of_nat (off + nat n)))\<rparr>"
    unfolding clips_list_page by (rule list_page_decimal [OF assms])
  have s: "search_query c \<lparr>arg_q = q, arg_limit = Some (of_int n), arg_cursor = cur\<rparr> =
              \<lparr>results = take (nat n) (drop off (matchingClips c (tokenize q))),
               cursor = (if int (length (matchingClips c (tokenize q))) \<le> int off + n then None
                         else Some (string_of_nat (off + nat n))),
               isDone = (int (length (matchingClips c (tokenize q))) \<le> int off + n)\<rparr>"
    if "tokenize q \<noteq> []"
    unfolding search_query_page [OF that nz] by (rule query_page_decimal [OF assms])
  have fl: "follow_cursor (Suc (length (list_results c args)))
              (clips_list_fetch c args (of_int n)) None = Some (drop 0 (list_results c args))"
    by (rule follow_offsets [OF assms(1)])
       (simp_all add: clips_list_fetch_def clips_list_page list_page_decimal [OF assms(1)])
  have fs: "follow_cursor (Suc (length (matchingClips c (tokenize q))))
              (search_query_fetch c q (Some (of_int n))) None =
              Some (drop 0 (matchingClips c (tokenize q)))"
    if "tokenize q \<noteq> []"
    by (rule follow_offsets [OF assms(1)])
       (simp_all add: search_query_fetch_def search_query_page [OF that nz]
          query_page_decimal [OF assms(1)])
  show ?thesis
    using l s fl fs search_query_default_limit [of c q cur]
      list_page_decimal [OF assms, of S] query_page_decimal [OF assms, of S]
    by simp
qed

text \<open>
  Claim C4 as stated fails for a page size between 0 and 1. With the page size 0.5 the end
  index 0.5 is cut to 0 by \<open>slice\<close>, so the page is empty; 0.5 is below the length, so the
  call is not done; the cursor is "0.5", which \<open>parseInt\<close> reads as 0. The call at that
  cursor returns the same, and the client never gets a clip or an end.
\<close>

lemma half_page_list_never_ends:
  "follow_cursor k (clips_list_fetch alice no_filters (1 / 2)) None = None"
  by (rule follow_stuck [where s = "''0.5''"]; code_simp)

lemma half_page_query_never_ends:
  "follow_cursor k (search_query_fetch alice ''hand'' (Some (1 / 2))) None = None"
  by (rule follow_stuck [where s = "''0.5''"]; code_simp)

theorem half_page_size_counterexample:
  "list_results alice no_filters = [clipD, clipB, clipA] \<and>
   clips_list alice (no_filters\<lparr>paginationOpts := \<lparr>numItems = 1 / 2, cursor = None\<rparr>\<rparr>) =
     \<lparr>page = [], isDone = False, continueCursor = Some ''0.5''\<rparr> \<and>
   clips_list alice (no_filters\<lparr>paginationOpts := \<lparr>numItems = 1 / 2, cursor = Some ''0.5''\<rparr>\<rparr>) =
     \<lparr>page = [], isDone = False, continueCursor = Some ''0.5''\<rparr> \<and>
   follow_cursor 100 (clips_list_fetch alice no_filters (1 / 2)) None = None \<and>
   search_query alice \<lparr>arg_q = ''hand'', arg_limit = Some (1 / 2), arg_cursor = Some ''0.5''\<rparr> =
     \<lparr>results = [], cursor = Some ''0.5'', isDone = False\<rparr> \<and>
   follow_cursor 100 (search_query_fetch alice ''hand'' (Some (1 / 2))) None = None"
proof -
  have "list_results alice no_filters = [clipD, clipB, clipA]"
    by code_simp
  moreover have
    "clips_list alice (no_filters\<lparr>paginationOpts := \<lparr>numItems = 1 / 2, cursor = None\<rparr>\<rparr>) =
       \<lparr>page = [], isDone = False, continueCursor = Some ''0.5''\<rparr>"
    by code_simp
  moreover have
    "clips_list alice (no_filters\<lparr>paginationOpts := \<lparr>numItems = 1 / 2, cursor = Some ''0.5''\<rparr>\<rparr>) =
       \<lparr>page = [], isDone = False, continueCursor = Some ''0.5''\<rparr>"
    by code_simp
  moreover have
    "search_query alice \<lparr>arg_q = ''hand'', arg_limit = Some (1 / 2), arg_cursor = Some ''0.5''\<rparr> =
       \<lparr>results = [], cursor = Some ''0.5'', isDone = False\<rparr>"
    by code_simp
  ultimately show ?thesis
    using half_page_list_never_ends [of 100] half_page_query_never_ends [of 100]
    by blast
qed

theorem pagination_witness:
  "(0::int) < 2 \<and> tokenize ''hand'' \<noteq> [] \<and>
   list_results alice no_filters = [clipD, clipB, clipA] \<and>
   matchingClips alice (tokenize ''hand'') = [clipD, clipA] \<and>
   clips_list alice (no_filters\<lparr>paginationOpts := \<lparr>numItems = 2, cursor = None\<rparr>\<rparr>) =
     \<lparr>page = [clipD, clipB], isDone = False, continueCursor = Some ''2''\<rparr> \<and>
   clips_list alice (no_filters\<lparr>paginationOpts := \<lparr>numItems = 2, cursor = Some ''2''\<rparr>\<rparr>) =
     \<lparr>page = [clipA], isDone = True, continueCursor = None\<rparr> \<and>
   search_query alice \<lparr>arg_q = ''hand'', arg_limit = Some 2, arg_cursor = Some ''2''\<rparr> =
     \<lparr>results = [], cursor = None, isDone = True\<rparr> \<and>
   follow_cursor 4 (clips_list_fetch alice no_filters 2) None = Some [clipD, clipB, clipA] \<and>
   follow_cursor 3 (search_query_fetch alice ''hand'' (Some 2)) None = Some [clipD, clipA]"
proof -
  have pos: "(0::int) < 2"
    by simp
  have q: "tokenize ''hand'' \<noteq> []"
    by code_simp
  have S: "list_results alice no_filters = [clipD, clipB, clipA]"
    and M: "matchingClips alice (tokenize ''hand'') = [clipD, clipA]"
    by code_simp+
  have two: "string_of_nat 2 = ''2''" "string_of_nat (0 + nat 2) = ''2''"
    by code_simp+
  have first: "None = None \<and> (0::nat) = 0 \<or> None = Some (string_of_nat 0)"
    by simp
  have second: "Some ''2'' = None \<and> (2::nat) = 0 \<or> Some ''2'' = Some (string_of_nat 2)"
    by (simp add: two)
  have num: "(of_int 2 :: rat) = 2"
    by simp
  have fuel: "Suc (length [clipD, clipB, clipA]) = 4" "Suc (length [clipD, clipA]) = 3"
    by simp_all
  have pages: "take (nat 2) (drop 0 [clipD, clipB, clipA]) = [clipD, clipB]"
    "take (nat 2) (drop 2 [clipD, clipB, clipA]) = [clipA]"
    "take (nat 2) (drop 2 [clipD, clipA]) = []"
    by simp_all
  have dones: "(int (length [clipD, clipB, clipA]) \<le> int 0 + 2) = False"
    "(int (length [clipD, clipB, clipA]) \<le> int 2 + 2) = True"
    "(int (length [clipD, clipA]) \<le> int 2 + 2) = True"
    by simp_all
  note a = pagination_slices_and_exhausts [OF pos first, of alice no_filters "''hand''" "[]",
      unfolded S M num pages dones two fuel if_False if_True]
  note b = pagination_slices_and_exhausts [OF pos second, of alice no_filters "''hand''" "[]",
      unfolded S M num pages dones two fuel if_False if_True]
  from pos q S M a b show ?thesis
    by blast
qed

section \<open>Malformed cursors and repeated object keys\<close>

lemma non_numeric_cursor_gives_empty_page:
  assumes "s \<noteq> []" and "parseInt s = NaN"
  shows "list_page S \<lparr>numItems = n, cursor = Some s\<rparr> =
           \<lparr>page = [], isDone = True, continueCursor = None\<rparr>"
    and "query_page S n (Some s) = \<lparr>results = [], cursor = None, isDone = True\<rparr>"
  using assms by (simp_all add: list_page_def query_page_def truthy_def slice_def)

text \<open>
  Claim C1. The specification asks that a non-numeric cursor be read as offset 0, so that
  the call returns the first page. The handlers do not reject such a cursor, but they do not
  return the first page either: \<open>parseInt("abc", 10)\<close> is \<open>NaN\<close>, it is not thrown, so the
  \<open>catch\<close> branch of \<open>query\<close> that resets the offset to 0 is never taken; the end index is
  \<open>NaN\<close>, the slice is empty and \<open>NaN < length\<close> is false. With the cursor "abc" both handlers
  return an empty page marked as the last one, where the first-page request returns clips.
\<close>

theorem non_numeric_cursor_is_not_the_first_page:
  "parseInt ''abc'' = NaN \<and>
   clips_list alice (no_filters\<lparr>paginationOpts := \<lparr>numItems = 10, cursor = Some ''abc''\<rparr>\<rparr>) =
     \<lparr>page = [], isDone = True, continueCursor = None\<rparr> \<and>
   clips_list alice (no_filters\<lparr>paginationOpts := \<lparr>numItems = 10, cursor = None\<rparr>\<rparr>) =
     \<lparr>page = [clipD, clipB, clipA], isDone = True, continueCursor = None\<rparr> \<and>
   search_query alice \<lparr>arg_q = ''hand'', arg_limit = Some 10, arg_cursor = Some ''abc''\<rparr> =
     \<lparr>results = [], cursor = None, isDone = True\<rparr> \<and>
   search_query alice \<lparr>arg_q = ''hand'', arg_limit = Some 10, arg_cursor = None\<rparr> =
     \<lparr>results = [clipD, clipA], cursor = None, isDone = True\<rparr>"
  by code_simp

text \<open>
  Claim C7. The specification asks that no two clips ever hold the same object key and that
  the key of a deleted clip is never used again. \<open>finalizeUpload\<close> inserts the key it is
  given without looking at the store: from the empty store, two calls with one key (by two
  users) leave two clips with that key, and a call after the first clip was deleted gives
  the deleted clip's key to a new clip. The handlers themselves count on the invariant:
  once one user holds two clips with one key, \<open>getPlaybackUrl\<close> for that key throws from its
  \<open>.unique()\<close> lookup.
\<close>

theorem finalizeUpload_repeats_an_object_key:
  "object_keys_unique empty_store \<and>
   map objectKey (clips after_first_upload) = [''clips/alice/100-x1.mp4''] \<and>
   map clip.docId (clips after_second_upload) = [0, 1] \<and>
   map clip.userId (clips after_second_upload) = [''alice'', ''bob''] \<and>
   map objectKey (clips after_second_upload) =
     [''clips/alice/100-x1.mp4'', ''clips/alice/100-x1.mp4''] \<and>
   \<not> object_keys_unique after_second_upload \<and>
   clips_getPlaybackUrl \<lparr>auth = Some ''alice'', db = after_second_upload, now = 250, random = ''q''\<rparr>
       ''clips/alice/100-x1.mp4'' = Inr ''clips/alice/100-x1.mp4'' \<and>
   clips_getPlaybackUrl \<lparr>auth = Some ''alice'', db = after_third_upload, now = 350, random = ''q''\<rparr>
       ''clips/alice/100-x1.mp4'' = Inl NotUnique \<and>
   map clip.docId (clips after_delete_and_upload) = [1] \<and>
   map objectKey (clips after_delete_and_upload) = [''clips/alice/100-x1.mp4'']"
  by code_simp

section \<open>Single-record operations\<close>

text \<open>
  Claim C6. When the clip id names no clip, or names a clip whose owner is not the caller,
  \<open>updateMeta\<close>, \<open>deleteClip\<close> and \<open>get\<close> all fail with the one error "Clip not found or access
  denied", the same in both cases, and the store after the failed mutation is the store
  before it.
\<close>

theorem absent_or_foreign_clip_same_error_no_change:
  assumes "case get_clip (db c) i of
             None \<Rightarrow> True
           | Some clip \<Rightarrow> clip.userId clip \<noteq> getCurrentUserId c"
  shows "clips_updateMeta c (args\<lparr>arg_id := i\<rparr>) = (Inl ClipNotFoundOrDenied, db c) \<and>
         clips_deleteClip c i = (Inl ClipNotFoundOrDenied, db c) \<and>
         clips_get c i = Inl ClipNotFoundOrDenied"
  using assms
  by (auto simp: clips_updateMeta_def clips_deleteClip_def clips_get_def split: option.splits)

theorem absent_or_foreign_clip_witness:
  "get_clip (db alice) 99 = None \<and>
   get_clip (db alice) 13 = Some clipC \<and> clip.userId clipC \<noteq> getCurrentUserId alice \<and>
   clips_updateMeta alice (\<lparr>arg_tags = Some [''mine''], arg_angle = None, arg_apparatus = None,
       arg_favorite = Some True, arg_sessionId = None, arg_id = 0\<rparr>\<lparr>arg_id := 99\<rparr>)
     = (Inl ClipNotFoundOrDenied, db alice) \<and>
   clips_updateMeta alice (\<lparr>arg_tags = Some [''mine''], arg_angle = None, arg_apparatus = None,
       arg_favorite = Some True, arg_sessionId = None, arg_id = 0\<rparr>\<lparr>arg_id := 13\<rparr>)
     = (Inl ClipNotFoundOrDenied, db alice) \<and>
   clips_deleteClip alice 99 = (Inl ClipNotFoundOrDenied, db alice) \<and>
   clips_deleteClip alice 13 = (Inl ClipNotFoundOrDenied, db alice) \<and>
   clips_get alice 99 = Inl ClipNotFoundOrDenied \<and>
   clips_get alice 13 = Inl ClipNotFoundOrDenied"
proof -
  have absent: "get_clip (db alice) 99 = None"
    by code_simp
  have foreign: "get_clip (db alice) 13 = Some clipC"
    by code_simp
  have other: "clip.userId clipC \<noteq> getCurrentUserId alice"
    by code_simp
  have a: "case get_clip (db alice) 99 of None \<Rightarrow> True
           | Some clip \<Rightarrow> clip.userId clip \<noteq> getCurrentUserId alice"
    by (simp add: absent)
  have f: "case get_clip (db alice) 13 of None \<Rightarrow> True
           | Some clip \<Rightarrow> clip.userId clip \<noteq> getCurrentUserId alice"
    by (simp add: foreign other)
  show ?thesis
    using absent foreign other
      absent_or_foreign_clip_same_error_no_change [OF a]
      absent_or_foreign_clip_same_error_no_change [OF f]
    by blast
qed

text \<open>
  Claim C9. Deleting a session that the caller owns removes that session record and nothing
  else: the table of clips is the same list as before, so every clip, the ones that refer to
  the session included, keeps every field, and a clip's reference to the deleted session
  now names no session.
\<close>

theorem deleteSession_removes_only_the_session:
  assumes "get_session (db c) s = Some sess"
    and "session.userId sess = getCurrentUserId c"
  shows "sessions_deleteSession c s =
           (Inr Success,
            (db c)\<lparr>sessions := filter (\<lambda>x. session.docId x \<noteq> s) (sessions (db c))\<rparr>) \<and>
         clips (snd (sessions_deleteSession c s)) = clips (db c) \<and>
         (\<forall>i. get_clip (snd (sessions_deleteSession c s)) i = get_clip (db c) i) \<and>
         get_session (snd (sessions_deleteSession c s)) s = None \<and>
         (\<forall>j. j \<noteq> s \<longrightarrow>
            get_session (snd (sessions_deleteSession c s)) j = get_session (db c) j)"
  using assms
  by (simp add: sessions_deleteSession_def delete_session_def get_clip_def get_session_def
      find_filter_other)

theorem deleteSession_witness:
  "get_session (db alice) 7 = Some session7 \<and>
   session.userId session7 = getCurrentUserId alice \<and>
   get_clip (db alice) 11 = Some clipA \<and> sessionId clipA = Some 7 \<and>
   fst (sessions_deleteSession alice 7) = Inr Success \<and>
   clips (snd (sessions_deleteSession alice 7)) = clips (db alice) \<and>
   get_clip (snd (sessions_deleteSession alice 7)) 11 = Some clipA \<and>
   get_session (snd (sessions_deleteSession alice 7)) 7 = None"
proof -
  have g: "get_session (db alice) 7 = Some session7"
    by code_simp
  have o: "session.userId session7 = getCurrentUserId alice"
    by code_simp
  have r: "sessionId clipA = Some 7"
    by (simp add: clipA_def)
  have a: "get_clip (db alice) 11 = Some clipA"
    by code_simp
  note d = deleteSession_removes_only_the_session [OF g o]
  from d have "fst (sessions_deleteSession alice 7) = Inr Success"
    by simp
  moreover from d a have "get_clip (snd (sessions_deleteSession alice 7)) 11 = Some clipA"
    by metis
  ultimately show ?thesis
    using g o r a d by blast
qed

text \<open>
  Claim C10. A successful \<open>updateMeta\<close> leaves every field of the target clip that the
  arguments do not supply as it was. The owner, the object key, the creation time and the
  size (and the id, duration, width and height) are never changed. A supplied argument
  overwrites its field; an omitted one is skipped, so a field that held a value holds a
  value afterwards: the operation cannot clear \<open>angle\<close>, \<open>apparatus\<close>, \<open>favorite\<close> or
  \<open>sessionId\<close> back to absent, and \<open>tags\<close> is the old list or the supplied one. Every other
  clip and every session is untouched.
\<close>

theorem updateMeta_changes_only_supplied_fields:
  assumes "fst (clips_updateMeta c args) = Inr Success"
  shows "\<exists>old new.
           get_clip (db c) (arg_id args) = Some old \<and>
           get_clip (snd (clips_updateMeta c args)) (arg_id args) = Some new \<and>
           clip.docId new = clip.docId old \<and> clip.userId new = clip.userId old \<and>
           objectKey new = objectKey old \<and> clip.createdAt new = clip.createdAt old \<and>
           bytes new = bytes old \<and> durationMs new = durationMs old \<and>
           width new = width old \<and> height new = height old \<and>
           tags new = (case arg_tags args of None \<Rightarrow> tags old | Some v \<Rightarrow> v) \<and>
           angle new = (case arg_angle args of None \<Rightarrow> angle old | Some v \<Rightarrow> Some v) \<and>
           apparatus new =
             (case arg_apparatus args of None \<Rightarrow> apparatus old | Some v \<Rightarrow> Some v) \<and>
           favorite new = (case arg_favorite args of None \<Rightarrow> favorite old | Some v \<Rightarrow> Some v) \<and>
           sessionId new =
             (case arg_sessionId args of None \<Rightarrow> sessionId old | Some v \<Rightarrow> Some v) \<and>
           (angle old \<noteq> None \<longrightarrow> angle new \<noteq> None) \<and>
           (apparatus old \<noteq> None \<longrightarrow> apparatus new \<noteq> None) \<and>
           (favorite old \<noteq> None \<longrightarrow> favorite new \<noteq> None) \<and>
           (sessionId old \<noteq> None \<longrightarrow> sessionId new \<noteq> None) \<and>
           (\<forall>j. j \<noteq> arg_id args \<longrightarrow>
              get_clip (snd (clips_updateMeta c args)) j = get_clip (db c) j) \<and>
           sessions (snd (clips_updateMeta c args)) = sessions (db c)"
proof -
  from assms obtain old where old: "get_clip (db c) (arg_id args) = Some old"
    and own: "clip.userId old = getCurrentUserId c"
    by (auto simp: clips_updateMeta_def split: option.splits if_splits)
  have id: "clip.docId old = arg_id args"
    using old by (rule get_clip_docId)
  let ?u = "\<lparr>upd_tags = arg_tags args, upd_angle = arg_angle args,
             upd_apparatus = arg_apparatus args, upd_favorite = arg_favorite args,
             upd_sessionId = arg_sessionId args\<rparr>"
  have d: "snd (clips_updateMeta c args) = patch_clip (db c) (arg_id args) ?u"
    using old own by (simp add: clips_updateMeta_def)
  have new: "get_clip (snd (clips_updateMeta c args)) (arg_id args) = Some (apply_updates ?u old)"
    by (simp add: d get_clip_patch old id)
  have others: "get_clip (snd (clips_updateMeta c args)) j = get_clip (db c) j"
    if "j \<noteq> arg_id args" for j
  proof (cases "get_clip (db c) j")
    case None
    then show ?thesis by (simp add: d get_clip_patch)
  next
    case (Some x)
    then have "clip.docId x = j" by (rule get_clip_docId)
    with that Some show ?thesis by (simp add: d get_clip_patch)
  qed
  have sess: "sessions (snd (clips_updateMeta c args)) = sessions (db c)"
    by (simp add: d patch_clip_def)
  have fields:
    "clip.docId (apply_updates ?u old) = clip.docId old"
    "clip.userId (apply_updates ?u old) = clip.userId old"
    "objectKey (apply_updates ?u old) = objectKey old"
    "clip.createdAt (apply_updates ?u old) = clip.createdAt old"
    "bytes (apply_updates ?u old) = bytes old"
    "durationMs (apply_updates ?u old) = durationMs old"
    "width (apply_updates ?u old) = width old"
    "height (apply_updates ?u old) = height old"
    "tags (apply_updates ?u old) = (case arg_tags args of None \<Rightarrow> tags old | Some v \<Rightarrow> v)"
    "angle (apply_updates ?u old) = (case arg_angle args of None \<Rightarrow> angle old | Some v \<Rightarrow> Some v)"
    "apparatus (apply_updates ?u old) =
       (case arg_apparatus args of None \<Rightarrow> apparatus old | Some v \<Rightarrow> Some v)"
    "favorite (apply_updates ?u old) =
       (case arg_favorite args of None \<Rightarrow> favorite old | Some v \<Rightarrow> Some v)"
    "sessionId (apply_updates ?u old) =
       (case arg_sessionId args of None \<Rightarrow> sessionId old | Some v \<Rightarrow> Some v)"
    by (simp_all add: apply_updates_def)
  have kept:
    "angle old \<noteq> None \<longrightarrow> angle (apply_updates ?u old) \<noteq> None"
    "apparatus old \<noteq> None \<longrightarrow> apparatus (apply_updates ?u old) \<noteq> None"
    "favorite old \<noteq> None \<longrightarrow> favorite (apply_updates ?u old) \<noteq> None"
    "sessionId old \<noteq> None \<longrightarrow> sessionId (apply_updates ?u old) \<noteq> None"
    by (simp_all add: fields split: option.splits)
  show ?thesis
    apply (rule exI [of _ old])
    apply (rule exI [of _ "apply_updates ?u old"])
    using old new fields kept others sess
    apply (intro conjI allI impI)
    apply (assumption | simp)+
    done
qed

theorem updateMeta_witness:
  "fst (clips_updateMeta alice \<lparr>arg_tags = None, arg_angle = None, arg_apparatus = Some Rings,
          arg_favorite = None, arg_sessionId = None, arg_id = 11\<rparr>) = Inr Success \<and>
   get_clip (db alice) 11 = Some clipA \<and>
   angle clipA = Some Front \<and> apparatus clipA = Some Floor \<and>
   favorite clipA = Some True \<and> sessionId clipA = Some 7 \<and>
   (\<exists>new. get_clip (snd (clips_updateMeta alice \<lparr>arg_tags = None, arg_angle = None,
              arg_apparatus = Some Rings, arg_favorite = None, arg_sessionId = None,
              arg_id = 11\<rparr>)) 11 = Some new \<and>
          clip.userId new = clip.userId clipA \<and> objectKey new = objectKey clipA \<and>
          clip.createdAt new = clip.createdAt clipA \<and> bytes new = bytes clipA \<and>
          tags new = tags clipA \<and> angle new = Some Front \<and> apparatus new = Some Rings \<and>
          favorite new = Some True \<and> sessionId new = Some 7) \<and>
   get_clip (snd (clips_updateMeta alice \<lparr>arg_tags = None, arg_angle = None,
          arg_apparatus = Some Rings, arg_favorite = None, arg_sessionId = None, arg_id = 11\<rparr>)) 12
     = get_clip (db alice) 12"
proof -
  let ?args = "\<lparr>arg_tags = None, arg_angle = None, arg_apparatus = Some Rings,
                 arg_favorite = None, arg_sessionId = None, arg_id = 11\<rparr>"
  have ok: "fst (clips_updateMeta alice ?args) = Inr Success"
    by code_simp
  have old: "get_clip (db alice) 11 = Some clipA"
    by code_simp
  have vals: "angle clipA = Some Front" "apparatus clipA = Some Floor"
    "favorite clipA = Some True" "sessionId clipA = Some 7"
    by (simp_all add: clipA_def)
  from updateMeta_changes_only_supplied_fields [OF ok] obtain x new where
    x: "get_clip (db alice) (arg_id ?args) = Some x"
    and new: "get_clip (snd (clips_updateMeta alice ?args)) (arg_id ?args) = Some new"
    and eqs: "clip.userId new = clip.userId x" "objectKey new = objectKey x"
      "clip.createdAt new = clip.createdAt x" "bytes new = bytes x"
      "tags new = (case arg_tags ?args of None \<Rightarrow> tags x | Some v \<Rightarrow> v)"
      "angle new = (case arg_angle ?args of None \<Rightarrow> angle x | Some v \<Rightarrow> Some v)"
      "apparatus new = (case arg_apparatus ?args of None \<Rightarrow> apparatus x | Some v \<Rightarrow> Some v)"
      "favorite new = (case arg_favorite ?args of None \<Rightarrow> favorite x | Some v \<Rightarrow> Some v)"
      "sessionId new = (case arg_sessionId ?args of None \<Rightarrow> sessionId x | Some v \<Rightarrow> Some v)"
    and oth: "\<forall>j. j \<noteq> arg_id ?args \<longrightarrow>
                get_clip (snd (clips_updateMeta alice ?args)) j = get_clip (db alice) j"
    by blast
  have xa: "x = clipA"
    using x old by simp
  have n: "get_clip (snd (clips_updateMeta alice ?args)) 11 = Some new"
    using new by simp
  have e: "clip.userId new = clip.userId clipA \<and> objectKey new = objectKey clipA \<and>
          clip.createdAt new = clip.createdAt clipA \<and> bytes new = bytes clipA \<and>
          tags new = tags clipA \<and> angle new = Some Front \<and> apparatus new = Some Rings \<and>
          favorite new = Some True \<and> sessionId new = Some 7"
    using eqs vals by (simp add: xa)
  have o12: "get_clip (snd (clips_updateMeta alice ?args)) 12 = get_clip (db alice) 12"
    using oth by simp
  from n e have "\<exists>new. get_clip (snd (clips_updateMeta alice ?args)) 11 = Some new \<and>
          clip.userId new = clip.userId clipA \<and> objectKey new = objectKey clipA \<and>
          clip.createdAt new = clip.createdAt clipA \<and> bytes new = bytes clipA \<and>
          tags new = tags clipA \<and> angle new = Some Front \<and> apparatus new = Some Rings \<and>
          favorite new = Some True \<and> sessionId new = Some 7"
    by blast
  with ok old vals o12 show ?thesis
    by blast
qed

end
